theory Spec2Isabelle
  imports Main "HOL-Library.Word" "HOL-Library.Sublist"
begin

section \<open>lsaddr: listing the addresses of the network interfaces\<close>

text \<open>
  A shallow embedding of \<^verbatim>\<open>src/lsaddr.c\<close>. The program reads three system
  sources (the interface listing \<^verbatim>\<open>/proc/net/dev\<close>, the socket ioctls
  \<^verbatim>\<open>SIOCGIFINDEX\<close> and \<^verbatim>\<open>SIOCGIFCONF\<close>, and the IPv6 address table
  \<^verbatim>\<open>/proc/net/if_inet6\<close>); they are the fields of the record \<open>system\<close> below.
  A run returns its exit, the lines written to standard output and the diagnostics
  written to standard error.
\<close>

subsection \<open>C strings and buffers\<close>

definition NUL :: char where
  "NUL = CHR 0x00"

definition colon :: char where
  "colon = CHR '':''"

definition dot :: char where
  "dot = CHR ''.''"

definition newline :: char where
  "newline = CHR 0x0A"

text \<open>\<^verbatim>\<open>isspace\<close> in the C locale: space, \<^verbatim>\<open>\t \n \v \f \r\<close>.\<close>

definition isspace :: "char \<Rightarrow> bool" where
  "isspace c = (c = CHR '' '' \<or> c = CHR 0x09 \<or> c = CHR 0x0A \<or> c = CHR 0x0B
                \<or> c = CHR 0x0C \<or> c = CHR 0x0D)"

text \<open>\<^verbatim>\<open>IFNAMSIZ\<close> of \<^verbatim>\<open>net/if.h\<close> and \<^verbatim>\<open>ADDRSTRLEN = INET6_ADDRSTRLEN\<close>
  (line 18: \<^verbatim>\<open>INET_ADDRSTRLEN = 16\<close> is not greater than \<^verbatim>\<open>INET6_ADDRSTRLEN = 46\<close>).\<close>

definition IFNAMSIZ :: nat where
  "IFNAMSIZ = 16"

definition ADDRSTRLEN :: nat where
  "ADDRSTRLEN = 46"

text \<open>The string a \<^verbatim>\<open>char\<close> array holds: the bytes before its first NUL. An array with
  no NUL in it is not a string; reading it as one runs past its end.\<close>

definition cstr :: "string \<Rightarrow> string" where
  "cstr buf = takeWhile (\<lambda>c. c \<noteq> NUL) buf"

definition cstr_of :: "string \<Rightarrow> string option" where
  "cstr_of buf = (if NUL \<in> set buf then Some (cstr buf) else None)"

text \<open>\<^verbatim>\<open>strncpy(dst, src, n)\<close>: at most \<open>n\<close> bytes of the string \<open>src\<close>, padded with
  NUL to \<open>n\<close> bytes (not terminated when \<open>src\<close> has \<open>n\<close> bytes or more).\<close>

definition strncpy :: "nat \<Rightarrow> string \<Rightarrow> string" where
  "strncpy n src = take n src @ replicate (n - length src) NUL"

text \<open>What \<^verbatim>\<open>scanf\<close>'s \<^verbatim>\<open>%s\<close> does to its destination array: the token and a
  terminating NUL overwrite its first bytes; the rest of the array keeps its old
  content. \<^verbatim>\<open>%s\<close> has no width here, so a token that does not fit is written past the
  end of the array: \<open>None\<close>.\<close>

definition store_str :: "string \<Rightarrow> string \<Rightarrow> string option" where
  "store_str buf tok =
     (if length tok < length buf then Some (tok @ NUL # drop (Suc (length tok)) buf)
      else None)"

subsection \<open>Command line (lines 42-88)\<close>

record args =
  ip_version_specified :: bool
  ipv4 :: bool
  ipv6 :: bool
  include_loopback :: bool
  include_link_local :: bool
  interfaces_specified :: bool
  list_interfaces :: bool
  interfaces :: "string list"
  num_interfaces :: nat

text \<open>The keys \<^verbatim>\<open>argp_parse\<close> hands to \<^verbatim>\<open>parse_opt\<close>: the five options, the
  positional arguments all at once (\<^verbatim>\<open>ARGP_KEY_ARGS\<close>, with the rest of
  \<^verbatim>\<open>argv\<close>), and argp's other keys, which \<^verbatim>\<open>parse_opt\<close> does not know.\<close>

datatype key =
  Key_4 | Key_6 | OPT_INCLUDE_LOOPBACK | OPT_INCLUDE_LINK_LOCAL | OPT_LIST_INTERFACES
  | ARGP_KEY_ARGS "string list" | Key_other

text \<open>\<open>None\<close> is \<^verbatim>\<open>ARGP_ERR_UNKNOWN\<close>.\<close>

fun parse_opt :: "key \<Rightarrow> args \<Rightarrow> args option" where
  "parse_opt Key_4 a = Some (a\<lparr>ip_version_specified := True, ipv4 := True\<rparr>)"
| "parse_opt Key_6 a = Some (a\<lparr>ip_version_specified := True, ipv6 := True\<rparr>)"
| "parse_opt OPT_INCLUDE_LOOPBACK a = Some (a\<lparr>include_loopback := True\<rparr>)"
| "parse_opt OPT_INCLUDE_LINK_LOCAL a = Some (a\<lparr>include_link_local := True\<rparr>)"
| "parse_opt OPT_LIST_INTERFACES a = Some (a\<lparr>list_interfaces := True\<rparr>)"
| "parse_opt (ARGP_KEY_ARGS rest) a =
     Some (a\<lparr>interfaces_specified := True, interfaces := rest, num_interfaces := length rest\<rparr>)"
| "parse_opt Key_other a = None"

text \<open>The initial \<^verbatim>\<open>struct args\<close> of \<^verbatim>\<open>main\<close> (lines 183-193); \<^verbatim>\<open>NULL\<close> with
  \<^verbatim>\<open>num_interfaces = 0\<close> is the empty array.\<close>

definition args0 :: args where
  "args0 = \<lparr>ip_version_specified = False, ipv4 = False, ipv6 = False,
            include_loopback = False, include_link_local = False,
            interfaces_specified = False, list_interfaces = False,
            interfaces = [], num_interfaces = 0\<rparr>"

text \<open>A command line: the options given, in their order, and the positional
  arguments. The options are the five of the table of line 31, the two that
  \<^verbatim>\<open>argp_parse\<close> adds when its flags are 0 as at line 195 (\<^verbatim>\<open>--help\<close>, also
  \<^verbatim>\<open>-?\<close>, and \<^verbatim>\<open>--usage\<close>), and any other word that starts with a dash, which
  argp does not know. \<^verbatim>\<open>argp_parse\<close> moves the options before the positional
  arguments, calls \<^verbatim>\<open>parse_opt\<close> with the key of each option of the table and, when
  positional arguments remain, once with \<^verbatim>\<open>ARGP_KEY_ARGS\<close>. A key \<^verbatim>\<open>parse_opt\<close>
  does not know leaves the arguments as they are.\<close>

datatype flag =
  Flag_4 | Flag_6 | Flag_include_loopback | Flag_include_link_local | Flag_list_interfaces
  | Flag_help | Flag_usage | Flag_unknown

text \<open>The key \<^verbatim>\<open>parse_opt\<close> is called with. The last three options never reach
  \<^verbatim>\<open>parse_opt\<close> with a key it knows: argp ends the program at them
  (\<open>argp_exits\<close> below).\<close>

fun key_of :: "flag \<Rightarrow> key" where
  "key_of Flag_4 = Key_4"
| "key_of Flag_6 = Key_6"
| "key_of Flag_include_loopback = OPT_INCLUDE_LOOPBACK"
| "key_of Flag_include_link_local = OPT_INCLUDE_LINK_LOCAL"
| "key_of Flag_list_interfaces = OPT_LIST_INTERFACES"
| "key_of Flag_help = Key_other"
| "key_of Flag_usage = Key_other"
| "key_of Flag_unknown = Key_other"

text \<open>How \<^verbatim>\<open>argp_parse\<close> ends the program instead of returning: at the first
  \<^verbatim>\<open>--help\<close> it prints the help list on standard output and calls \<^verbatim>\<open>exit(0)\<close>,
  at the first \<^verbatim>\<open>--usage\<close> the usage message likewise, and at the first option it
  does not know it prints an error on standard error and exits with
  \<^verbatim>\<open>argp_err_exit_status\<close>. \<open>None\<close>: it returns.\<close>

datatype argp_end = Argp_help | Argp_usage | Argp_error

fun argp_exits :: "flag list \<Rightarrow> argp_end option" where
  "argp_exits [] = None"
| "argp_exits (Flag_help # fs) = Some Argp_help"
| "argp_exits (Flag_usage # fs) = Some Argp_usage"
| "argp_exits (Flag_unknown # fs) = Some Argp_error"
| "argp_exits (f # fs) = argp_exits fs"

record cmdline =
  opts :: "flag list"
  names :: "string list"

definition apply_key :: "args \<Rightarrow> key \<Rightarrow> args" where
  "apply_key a k = (case parse_opt k a of None \<Rightarrow> a | Some a' \<Rightarrow> a')"

text \<open>The arguments when \<^verbatim>\<open>argp_parse\<close> returns.\<close>

definition argp_parse :: "cmdline \<Rightarrow> args" where
  "argp_parse c =
     (let a = foldl apply_key args0 (map key_of (opts c))
      in if names c = [] then a else apply_key a (ARGP_KEY_ARGS (names c)))"

subsection \<open>Diagnostics and results\<close>

text \<open>The messages on standard error, without the program name and the text of
  \<^verbatim>\<open>errno\<close>.\<close>

datatype diag =
  Could_not_open_listing
  | Could_not_parse_listing
  | Could_not_open_interface string
  | Could_not_open_if_inet6
  | Something_went_wrong
  | Unrecognized_option

datatype family = AF_INET | AF_INET6

text \<open>A line on standard output: an interface name (\<^verbatim>\<open>--list-interfaces\<close>), an
  address, kept with the interface and the family of the table entry it is printed
  for, or a line of argp's help list or usage message. Only \<open>text_of\<close> is
  printed.\<close>

datatype printed = Name_line string | Address_line string family string | Help_line string

fun text_of :: "printed \<Rightarrow> string" where
  "text_of (Name_line n) = n"
| "text_of (Address_line i f a) = a"
| "text_of (Help_line h) = h"

text \<open>How a run ends: \<^verbatim>\<open>EXIT_SUCCESS\<close>, \<^verbatim>\<open>EXIT_FAILURE\<close>, \<^verbatim>\<open>EX_USAGE\<close> (argp's
  \<^verbatim>\<open>argp_err_exit_status\<close>), or behaviour the C language leaves undefined (a write
  through a null pointer, a write or read past the end of an array), after which
  nothing is modelled.\<close>

datatype exit = EXIT_SUCCESS | EXIT_FAILURE | EX_USAGE | Undefined

record run =
  status :: exit
  out :: "printed list"
  err :: "diag list"

subsection \<open>\<^verbatim>\<open>remove_bad_interfaces\<close> (lines 155-173)\<close>

text \<open>The loop, on the array and both indices. \<open>probe\<close> is the outcome of
  \<^verbatim>\<open>ioctl(sockfd, SIOCGIFINDEX, &req)\<close> on the 16 bytes of \<^verbatim>\<open>req.ifr_name\<close>
  (\<open>True\<close>: the ioctl returns 0). A failed probe prints a diagnostic and goes on; a
  good name is stored at \<open>out_ix\<close> in the same array. \<open>None\<close>: \<open>in_ix\<close> is past the
  end of the array.\<close>

function rbi_loop ::
  "(string \<Rightarrow> bool) \<Rightarrow> nat \<Rightarrow> string list \<Rightarrow> nat \<Rightarrow> nat \<Rightarrow> diag list
   \<Rightarrow> (string list \<times> nat \<times> diag list) option" where
  "rbi_loop probe n ifs in_ix out_ix e =
     (if in_ix < n then
        (if length ifs \<le> in_ix then None
         else if \<not> probe (strncpy IFNAMSIZ (ifs ! in_ix)) then
           rbi_loop probe n ifs (Suc in_ix) out_ix (e @ [Could_not_open_interface (ifs ! in_ix)])
         else rbi_loop probe n (ifs[out_ix := ifs ! in_ix]) (Suc in_ix) (Suc out_ix) e)
      else Some (ifs, out_ix, e))"
  by pat_completeness auto
termination
  by (relation "measure (\<lambda>(probe, n, ifs, in_ix, out_ix, e). n - in_ix)") auto

declare rbi_loop.simps [simp del]

text \<open>The array after the call, the new \<^verbatim>\<open>*num_interfaces\<close> and the diagnostics
  printed.\<close>

definition remove_bad_interfaces ::
  "(string \<Rightarrow> bool) \<Rightarrow> string list \<Rightarrow> nat \<Rightarrow> (string list \<times> nat \<times> diag list) option" where
  "remove_bad_interfaces probe ifs n = rbi_loop probe n ifs 0 0 []"

text \<open>Whether the probe of a name succeeds.\<close>

definition exists_ifc :: "(string \<Rightarrow> bool) \<Rightarrow> string \<Rightarrow> bool" where
  "exists_ifc probe nm = probe (strncpy IFNAMSIZ nm)"

subsection \<open>\<^verbatim>\<open>get_interfaces\<close> (lines 90-144)\<close>

text \<open>The lines \<^verbatim>\<open>getline\<close> returns one after the other until the end of the file,
  each with its newline; a last line without a newline is a line too. \<open>cur\<close> is the
  line read so far.\<close>

fun getlines :: "string \<Rightarrow> string \<Rightarrow> string list" where
  "getlines [] cur = (if cur = [] then [] else [cur])"
| "getlines (c # cs) cur =
     (if c = newline then (cur @ [c]) # getlines cs [] else getlines cs (cur @ [c]))"

definition PROC_NET_DEV_HEADER_LINES :: nat where
  "PROC_NET_DEV_HEADER_LINES = 2"

text \<open>\<^verbatim>\<open>sscanf(line, "%ms", &p)\<close>: the first whitespace-delimited token of the string
  \<open>line\<close>, in fresh memory; \<open>None\<close> when the string holds no token, and then nothing is
  stored.\<close>

definition sscanf_ms :: "string \<Rightarrow> string option" where
  "sscanf_ms line =
     (let t = takeWhile (\<lambda>c. \<not> isspace c) (dropWhile isspace (cstr line))
      in if t = [] then None else Some t)"

text \<open>Lines 131-132, for one line. The slot of the array is \<^verbatim>\<open>NULL\<close> from
  \<^verbatim>\<open>calloc\<close> when \<^verbatim>\<open>sscanf\<close> stored nothing, and \<^verbatim>\<open>index\<close> returns \<^verbatim>\<open>NULL\<close> when
  the token has no colon: in both cases the assignment of line 132 writes through a
  null pointer (\<open>None\<close>). Otherwise the token is cut at its first colon.\<close>

definition parse_interface_line :: "string \<Rightarrow> string option" where
  "parse_interface_line line =
     (case sscanf_ms line of
        None \<Rightarrow> None
      | Some tok \<Rightarrow>
          if colon \<in> set tok then Some (takeWhile (\<lambda>c. c \<noteq> colon) tok) else None)"

text \<open>The loop of lines 129-133; it ends at the first null dereference.\<close>

fun parse_interface_lines :: "string list \<Rightarrow> string list option" where
  "parse_interface_lines [] = Some []"
| "parse_interface_lines (l # ls) =
     (case parse_interface_line l of
        None \<Rightarrow> None
      | Some nm \<Rightarrow>
          (case parse_interface_lines ls of
             None \<Rightarrow> None
           | Some nms \<Rightarrow> Some (nm # nms)))"

datatype 'a result = Ok 'a | Fatal diag | Undefined_behaviour

text \<open>The argument is the content of \<^verbatim>\<open>/proc/net/dev\<close>, \<open>None\<close> when it cannot be
  opened. \<^verbatim>\<open>error(EXIT_FAILURE, ...)\<close> ends the program. The result is the array of
  names; \<^verbatim>\<open>*num_interfaces\<close> is its length, the number of lines counted at line
  116.\<close>

definition get_interfaces :: "string option \<Rightarrow> string list result" where
  "get_interfaces file =
     (case file of
        None \<Rightarrow> Fatal Could_not_open_listing
      | Some text \<Rightarrow>
          (let ls = getlines text []
           in if length ls < PROC_NET_DEV_HEADER_LINES then Fatal Could_not_parse_listing
              else (case parse_interface_lines (drop PROC_NET_DEV_HEADER_LINES ls) of
                      None \<Rightarrow> Undefined_behaviour
                    | Some nms \<Rightarrow> Ok nms)))"

subsection \<open>The address loops of \<^verbatim>\<open>main\<close> (lines 237-274)\<close>

text \<open>\<^verbatim>\<open>struct in_addr\<close>, as its four bytes in memory (network) order, and an entry of
  the table \<^verbatim>\<open>SIOCGIFCONF\<close> fills.\<close>

datatype in_addr = In_addr "8 word" "8 word" "8 word" "8 word"

record ifreq =
  ifr_name :: string
  sin_addr :: in_addr

text \<open>\<^verbatim>\<open>%u\<close>: the decimal digits, the most significant first; \<open>digit\<close> is only
  applied to numbers below ten.\<close>

definition digit :: "nat \<Rightarrow> char" where
  "digit n = ''0123456789'' ! n"

fun dec :: "nat \<Rightarrow> string" where
  "dec n = (if n < 10 then [digit n] else dec (n div 10) @ [digit (n mod 10)])"

declare dec.simps [simp del]

text \<open>\<^verbatim>\<open>inet_ntop(AF_INET, ...)\<close>; the 46 bytes of \<^verbatim>\<open>addr\<close> always hold the result.\<close>

fun inet_ntop4 :: "in_addr \<Rightarrow> string" where
  "inet_ntop4 (In_addr a b c d) =
     dec (unat a) @ dot # dec (unat b) @ dot # dec (unat c) @ dot # dec (unat d)"

text \<open>\<^verbatim>\<open>lfind\<close> with \<^verbatim>\<open>cmp\<close>: the first of the \<open>n\<close> first elements of the array that
  \<^verbatim>\<open>strcmp\<close> finds equal to the key.\<close>

definition lfind :: "string \<Rightarrow> string list \<Rightarrow> nat \<Rightarrow> string option" where
  "lfind k base n = find (\<lambda>e. k = e) (take n base)"

text \<open>Lines 239-251.\<close>

fun ipv4_loop :: "args \<Rightarrow> ifreq list \<Rightarrow> printed list" where
  "ipv4_loop a [] = []"
| "ipv4_loop a (r # rs) =
     (if \<not> interfaces_specified a \<or> lfind (ifr_name r) (interfaces a) (num_interfaces a) \<noteq> None
      then (if \<not> ip_version_specified a \<or> ipv4 a
            then Address_line (ifr_name r) AF_INET (inet_ntop4 (sin_addr r)) # ipv4_loop a rs
            else ipv4_loop a rs)
      else ipv4_loop a rs)"

text \<open>The whitespace-delimited tokens of a stream, in order: what successive
  \<^verbatim>\<open>%s\<close> directives of \<^verbatim>\<open>fscanf\<close> read. \<open>cur\<close> is the token read so far.\<close>

fun tokens :: "string \<Rightarrow> string \<Rightarrow> string list" where
  "tokens [] cur = (if cur = [] then [] else [cur])"
| "tokens (c # cs) cur =
     (if isspace c then (if cur = [] then tokens cs [] else cur # tokens cs [])
      else tokens cs (cur @ [c]))"

text \<open>\<^verbatim>\<open>%.4s\<close> on \<^verbatim>\<open>ip + off\<close>: up to four bytes, fewer when a NUL comes first.\<close>

definition prec4 :: "string \<Rightarrow> nat \<Rightarrow> string" where
  "prec4 buf off = take 4 (cstr (drop off buf))"

text \<open>Lines 267-270; \<^verbatim>\<open>snprintf\<close> keeps at most \<^verbatim>\<open>sizeof(pretty_ip) - 1\<close> bytes.\<close>

definition pretty_ip :: "string \<Rightarrow> string" where
  "pretty_ip ip =
     take (ADDRSTRLEN - 1)
       (prec4 ip 0 @ colon # prec4 ip 4 @ colon # prec4 ip 8 @ colon # prec4 ip 12 @ colon #
        prec4 ip 16 @ colon # prec4 ip 20 @ colon # prec4 ip 24 @ colon # prec4 ip 28)"

text \<open>The body of the loop, lines 263-272, on the arrays \<^verbatim>\<open>ip\<close> and \<^verbatim>\<open>ifc\<close>: the
  lines it prints; \<open>None\<close> when \<^verbatim>\<open>strcmp\<close> reads \<^verbatim>\<open>ifc\<close> and finds no NUL in it.\<close>

definition inet6_body :: "args \<Rightarrow> string \<Rightarrow> string \<Rightarrow> printed list option" where
  "inet6_body a ip ifc =
     (if \<not> interfaces_specified a then Some [Address_line (cstr ifc) AF_INET6 (pretty_ip ip)]
      else (case cstr_of ifc of
              None \<Rightarrow> None
            | Some nm \<Rightarrow>
                if lfind nm (interfaces a) (num_interfaces a) \<noteq> None
                then Some [Address_line nm AF_INET6 (pretty_ip ip)]
                else Some []))"

text \<open>The loop of lines 262-273 on the tokens left in the file. \<^verbatim>\<open>fscanf\<close> with
  \<^verbatim>\<open>"%s %*s %*s %*s %*s %s"\<close> returns \<^verbatim>\<open>EOF\<close> when no token is left; it stores the
  first token in \<^verbatim>\<open>ip\<close>, drops four and stores the sixth in \<^verbatim>\<open>ifc\<close>; when fewer
  than six tokens are left it stores the first, returns 1 and leaves \<^verbatim>\<open>ifc\<close> as it
  was, the body runs, and the next call returns \<^verbatim>\<open>EOF\<close>. The result is the lines
  printed and whether the loop ended without undefined behaviour.\<close>

fun inet6_loop :: "args \<Rightarrow> string \<Rightarrow> string \<Rightarrow> string list \<Rightarrow> printed list \<times> bool" where
  "inet6_loop a ip ifc [] = ([], True)"
| "inet6_loop a ip ifc (t1 # t2 # t3 # t4 # t5 # t6 # rest) =
     (case store_str ip t1 of
        None \<Rightarrow> ([], False)
      | Some ip' \<Rightarrow>
          (case store_str ifc t6 of
             None \<Rightarrow> ([], False)
           | Some ifc' \<Rightarrow>
               (case inet6_body a ip' ifc' of
                  None \<Rightarrow> ([], False)
                | Some ls \<Rightarrow>
                    (case inet6_loop a ip' ifc' rest of (ls', ok) \<Rightarrow> (ls @ ls', ok)))))"
| "inet6_loop a ip ifc (t1 # rest) =
     (case store_str ip t1 of
        None \<Rightarrow> ([], False)
      | Some ip' \<Rightarrow>
          (case inet6_body a ip' ifc of
             None \<Rightarrow> ([], False)
           | Some ls \<Rightarrow> (ls, True)))"

subsection \<open>\<^verbatim>\<open>main\<close> (lines 182-281)\<close>

text \<open>What the system answers during one run. \<open>ifconf_len\<close> is \<^verbatim>\<open>ifc_len\<close> after the
  first \<^verbatim>\<open>SIOCGIFCONF\<close> (in bytes) and \<open>ifconf_req\<close> the table at the second one,
  \<open>None\<close> when the ioctl fails. \<open>stack_ip\<close> and \<open>stack_ifc\<close> are the bytes the
  uninitialised arrays \<^verbatim>\<open>ip\<close> and \<^verbatim>\<open>ifc\<close> of line 261 hold at first.
  \<open>help_text\<close> and \<open>usage_text\<close> are the lines argp prints for \<^verbatim>\<open>--help\<close> and
  \<^verbatim>\<open>--usage\<close>: argp is part of the C library, and the lines hold the name the
  program is called with.\<close>

record system =
  proc_net_dev :: "string option"
  proc_net_access :: bool
  if_inet6_access :: bool
  socket_ok :: bool
  ifindex_ok :: "string \<Rightarrow> bool"
  ifconf_len :: "nat option"
  malloc_ok :: bool
  ifconf_req :: "ifreq list option"
  if_inet6 :: "string option"
  stack_ip :: "nat \<Rightarrow> char"
  stack_ifc :: "nat \<Rightarrow> char"
  help_text :: "string list"
  usage_text :: "string list"

text \<open>\<^verbatim>\<open>sizeof(struct ifreq)\<close> on Linux with 64-bit pointers.\<close>

definition sizeof_ifreq :: nat where
  "sizeof_ifreq = 40"

text \<open>The second \<^verbatim>\<open>SIOCGIFCONF\<close> fills the buffer with the entries that fit in
  \<^verbatim>\<open>ifc_len\<close> bytes and sets \<^verbatim>\<open>ifc_len\<close> to their size; line 239 divides it by
  \<^verbatim>\<open>sizeof(struct ifreq)\<close> again.\<close>

definition ifc_req :: "nat \<Rightarrow> ifreq list \<Rightarrow> ifreq list" where
  "ifc_req len table = take (len div sizeof_ifreq) table"

text \<open>The label \<^verbatim>\<open>errorout\<close>: \<^verbatim>\<open>perror\<close> and \<^verbatim>\<open>exit(EXIT_FAILURE)\<close>, after the
  output and the diagnostics so far.\<close>

definition errorout :: "printed list \<Rightarrow> diag list \<Rightarrow> run" where
  "errorout ls e = \<lparr>status = EXIT_FAILURE, out = ls, err = e @ [Something_went_wrong]\<rparr>"

text \<open>Lines 253-276, after the IPv4 lines \<open>ls4\<close>.\<close>

definition inet6_part :: "system \<Rightarrow> args \<Rightarrow> printed list \<Rightarrow> diag list \<Rightarrow> run" where
  "inet6_part sys a ls4 e =
     (if \<not> ip_version_specified a \<or> ipv6 a then
        (case if_inet6 sys of
           None \<Rightarrow> errorout ls4 (e @ [Could_not_open_if_inet6])
         | Some text \<Rightarrow>
             (case inet6_loop a (map (stack_ip sys) [0..<ADDRSTRLEN])
                     (map (stack_ifc sys) [0..<IFNAMSIZ]) (tokens text []) of
                (ls6, ok) \<Rightarrow>
                  \<lparr>status = (if ok then EXIT_SUCCESS else Undefined), out = ls4 @ ls6, err = e\<rparr>))
      else \<lparr>status = EXIT_SUCCESS, out = ls4, err = e\<rparr>)"

text \<open>Lines 222-276, after \<^verbatim>\<open>remove_bad_interfaces\<close> and its diagnostics \<open>e\<close>.\<close>

definition addresses_part :: "system \<Rightarrow> args \<Rightarrow> diag list \<Rightarrow> run" where
  "addresses_part sys a e =
     (case ifconf_len sys of
        None \<Rightarrow> errorout [] e
      | Some len \<Rightarrow>
          if \<not> malloc_ok sys then errorout [] e
          else (case ifconf_req sys of
                  None \<Rightarrow> errorout [] e
                | Some table \<Rightarrow> inet6_part sys a (ipv4_loop a (ifc_req len table)) e))"

text \<open>Lines 208-220, after \<^verbatim>\<open>get_interfaces\<close> and the list mode.\<close>

definition checks_part :: "system \<Rightarrow> args \<Rightarrow> run" where
  "checks_part sys a =
     (if \<not> proc_net_access sys then errorout [] []
      else if \<not> if_inet6_access sys then errorout [] []
      else if \<not> socket_ok sys then errorout [] []
      else (case remove_bad_interfaces (ifindex_ok sys) (interfaces a) (num_interfaces a) of
              None \<Rightarrow> \<lparr>status = Undefined, out = [], err = []\<rparr>
            | Some (ifs, n, e) \<Rightarrow>
                addresses_part sys (a\<lparr>interfaces := ifs, num_interfaces := n\<rparr>) e))"

text \<open>A run that \<^verbatim>\<open>argp_parse\<close> ends at line 195.\<close>

fun argp_end_run :: "system \<Rightarrow> argp_end \<Rightarrow> run" where
  "argp_end_run sys Argp_help =
     \<lparr>status = EXIT_SUCCESS, out = map Help_line (help_text sys), err = []\<rparr>"
| "argp_end_run sys Argp_usage =
     \<lparr>status = EXIT_SUCCESS, out = map Help_line (usage_text sys), err = []\<rparr>"
| "argp_end_run sys Argp_error = \<lparr>status = EX_USAGE, out = [], err = [Unrecognized_option]\<rparr>"

definition main :: "system \<Rightarrow> cmdline \<Rightarrow> run" where
  "main sys c =
     (case argp_exits (opts c) of
        Some e \<Rightarrow> argp_end_run sys e
      | None \<Rightarrow>
          (let a = argp_parse c
           in case get_interfaces (proc_net_dev sys) of
                Fatal d \<Rightarrow> \<lparr>status = EXIT_FAILURE, out = [], err = [d]\<rparr>
              | Undefined_behaviour \<Rightarrow> \<lparr>status = Undefined, out = [], err = []\<rparr>
              | Ok ifs \<Rightarrow>
                  if list_interfaces a
                  then \<lparr>status = EXIT_SUCCESS, out = map Name_line ifs, err = []\<rparr>
                  else checks_part sys a))"

text \<open>Standard output, as text.\<close>

definition stdout :: "run \<Rightarrow> string list" where
  "stdout r = map text_of (out r)"

subsection \<open>Notions the properties are stated with\<close>

text \<open>\<^verbatim>\<open>isxdigit\<close> and \<^verbatim>\<open>isdigit\<close> of \<^verbatim>\<open>ctype.h\<close>.\<close>

definition isxdigit :: "char \<Rightarrow> bool" where
  "isxdigit c = (c \<in> set ''0123456789abcdefABCDEF'')"

definition isdigit :: "char \<Rightarrow> bool" where
  "isdigit c = (c \<in> set ''0123456789'')"

text \<open>The fields of a string between its dots; \<open>cur\<close> is the field read so far.\<close>

fun split_dots :: "string \<Rightarrow> string \<Rightarrow> string list" where
  "split_dots [] cur = [cur]"
| "split_dots (c # cs) cur =
     (if c = dot then cur # split_dots cs [] else split_dots cs (cur @ [c]))"

text \<open>Dotted-decimal form: four fields of one to three decimal digits, between dots.\<close>

definition is_dotted_decimal :: "string \<Rightarrow> bool" where
  "is_dotted_decimal s =
     (let fs = split_dots s []
      in length fs = 4 \<and> list_all (\<lambda>f. f \<noteq> [] \<and> length f \<le> 3 \<and> list_all isdigit f) fs)"

fun is_address_line :: "printed \<Rightarrow> bool" where
  "is_address_line (Name_line n) = False"
| "is_address_line (Address_line i f a) = True"
| "is_address_line (Help_line h) = False"

text \<open>The address lines on standard output, as text.\<close>

definition address_lines :: "run \<Rightarrow> string list" where
  "address_lines r = map text_of (filter is_address_line (out r))"


text \<open>The arrays \<^verbatim>\<open>ip\<close> and \<^verbatim>\<open>ifc\<close> as the body of the loop of line 262 finds
  them, one pair for each call of \<^verbatim>\<open>fscanf\<close> that does not return \<^verbatim>\<open>EOF\<close>, up to
  the first token that does not fit its array: the records the program reads from the
  table.\<close>

fun fscanf_records :: "string \<Rightarrow> string \<Rightarrow> string list \<Rightarrow> (string \<times> string) list" where
  "fscanf_records ip ifc [] = []"
| "fscanf_records ip ifc (t1 # t2 # t3 # t4 # t5 # t6 # rest) =
     (case store_str ip t1 of
        None \<Rightarrow> []
      | Some ip' \<Rightarrow>
          (case store_str ifc t6 of
             None \<Rightarrow> []
           | Some ifc' \<Rightarrow> (ip', ifc') # fscanf_records ip' ifc' rest))"
| "fscanf_records ip ifc (t1 # rest) =
     (case store_str ip t1 of
        None \<Rightarrow> []
      | Some ip' \<Rightarrow> [(ip', ifc)])"




text \<open>The (address, interface name) tokens of a token list read six tokens at a time,
  as \<^verbatim>\<open>fscanf\<close> reads them at line 262: the first and the sixth token of each
  record.\<close>

fun table_records :: "string list \<Rightarrow> (string \<times> string) list" where
  "table_records (t1 # t2 # t3 # t4 # t5 # t6 # rest) = (t1, t6) # table_records rest"
| "table_records ts = []"

text \<open>A token list made of records of six tokens, as the kernel writes the table: an
  address of 32 hexadecimal digits in lower case, so that two addresses are the same
  value exactly when they are the same token, and an interface name without NUL
  byte that fits \<^verbatim>\<open>ifc\<close>.\<close>

definition is_lower_hex :: "char \<Rightarrow> bool" where
  "is_lower_hex c = (c \<in> set ''0123456789abcdef'')"

fun records_well_formed :: "string list \<Rightarrow> bool" where
  "records_well_formed [] = True"
| "records_well_formed (t1 # t2 # t3 # t4 # t5 # t6 # rest) =
     (length t1 = 32 \<and> list_all is_lower_hex t1 \<and> length t6 < IFNAMSIZ \<and> NUL \<notin> set t6 \<and>
      records_well_formed rest)"
| "records_well_formed (t1 # rest) = False"

text \<open>The eight groups of four bytes of a string, joined by colons.\<close>

definition colon_groups :: "string \<Rightarrow> string" where
  "colon_groups t =
     take 4 t @ colon # take 4 (drop 4 t) @ colon # take 4 (drop 8 t) @ colon #
     take 4 (drop 12 t) @ colon # take 4 (drop 16 t) @ colon #
     take 4 (drop 20 t) @ colon # take 4 (drop 24 t) @ colon # take 4 (drop 28 t)"

text \<open>The entries of the two tables: the (interface name, address) pairs of the table
  \<^verbatim>\<open>SIOCGIFCONF\<close> returns, and the (address, interface name) tokens of the records
  of the IPv6 table; and whether the IPv6 table is well formed.\<close>

definition ipv4_entries :: "system \<Rightarrow> (string \<times> in_addr) list" where
  "ipv4_entries sys =
     (case ifconf_req sys of
        None \<Rightarrow> []
      | Some table \<Rightarrow> map (\<lambda>r. (ifr_name r, sin_addr r)) table)"

definition ipv6_entries :: "system \<Rightarrow> (string \<times> string) list" where
  "ipv6_entries sys =
     (case if_inet6 sys of
        None \<Rightarrow> []
      | Some text \<Rightarrow> table_records (tokens text []))"

definition ipv6_well_formed :: "system \<Rightarrow> bool" where
  "ipv6_well_formed sys =
     (case if_inet6 sys of
        None \<Rightarrow> True
      | Some text \<Rightarrow> records_well_formed (tokens text []))"

text \<open>The IPv6 lines of a run that reaches line 253 with the arguments \<open>a\<close>.\<close>

definition ip6_lines :: "system \<Rightarrow> args \<Rightarrow> printed list" where
  "ip6_lines sys a =
     (if \<not> ip_version_specified a \<or> ipv6 a then
        (case if_inet6 sys of
           None \<Rightarrow> []
         | Some text \<Rightarrow>
             fst (inet6_loop a (map (stack_ip sys) [0..<ADDRSTRLEN])
                    (map (stack_ifc sys) [0..<IFNAMSIZ]) (tokens text [])))
      else [])"

subsection \<open>Example systems\<close>

definition text_lines :: "string list \<Rightarrow> string" where
  "text_lines ls = concat (map (\<lambda>l. l @ [newline]) ls)"

definition listing_example :: string where
  "listing_example = text_lines
     [''Inter-|   Receive                |  Transmit'',
      '' face |bytes    packets errs drop|bytes    packets'',
      ''    lo: 1234      12    0    0 1234      12'',
      ''  eth0: 99999     80    0    0 7777      60'']"

definition table6_example :: string where
  "table6_example = text_lines
     [''00000000000000000000000000000001 01 80 10 80       lo'',
      ''fe800000000000000000000000000001 02 40 20 80     eth0'',
      ''20010db8000000000000000000000007 02 40 00 00     eth0'']"

text \<open>A host with the interfaces \<^verbatim>\<open>lo\<close> and \<^verbatim>\<open>eth0\<close>, where every call succeeds.\<close>

definition sys_example :: system where
  "sys_example =
     \<lparr>proc_net_dev = Some listing_example, proc_net_access = True, if_inet6_access = True,
      socket_ok = True,
      ifindex_ok = (\<lambda>b. b = strncpy IFNAMSIZ ''lo'' \<or> b = strncpy IFNAMSIZ ''eth0''),
      ifconf_len = Some 80, malloc_ok = True,
      ifconf_req = Some [\<lparr>ifr_name = ''lo'', sin_addr = In_addr 127 0 0 1\<rparr>,
                         \<lparr>ifr_name = ''eth0'', sin_addr = In_addr 192 168 1 10\<rparr>],
      if_inet6 = Some table6_example,
      stack_ip = (\<lambda>_. CHR ''?''), stack_ifc = (\<lambda>_. CHR ''?''),
      help_text =
        [''Usage: lsaddr [OPTION...]'',
         [],
         ''  -4, --ipv4                 List IPv4 addresses'',
         ''  -6, --ipv6                 List IPv6 addresses'',
         ''      --include-link-local   Include IPv6 link-local addresses'',
         ''      --include-loopback     Include addresses for the loopback interface'',
         ''      --list-interfaces      List interfaces and exit'',
         ''  -?, --help                 Give this help list'',
         ''      --usage                Give a short usage message''],
      usage_text =
        [''Usage: lsaddr [-46?] [--ipv4] [--ipv6] [--include-link-local]'',
         ''            [--include-loopback] [--list-interfaces] [--help] [--usage]'']\<rparr>"




text \<open>The same host with the line of \<^verbatim>\<open>eth0\<close> twice in the IPv6 table.\<close>

definition sys_repeated :: system where
  "sys_repeated = sys_example\<lparr>if_inet6 := Some (text_lines
     [''fe800000000000000000000000000001 02 40 20 80     eth0'',
      ''fe800000000000000000000000000001 02 40 20 80     eth0''])\<rparr>"



text \<open>A host with the interfaces \<^verbatim>\<open>lo\<close> and \<^verbatim>\<open>abcdefghijklmno\<close>. The kernel
  reads the 16 bytes of \<^verbatim>\<open>ifr_name\<close> as a string of at most 15 bytes.\<close>

definition sys_long_name :: system where
  "sys_long_name = sys_example
     \<lparr>proc_net_dev := Some (text_lines
        [''Inter-|   Receive                |  Transmit'',
         '' face |bytes    packets errs drop|bytes    packets'',
         ''    lo: 1234      12    0    0 1234      12'',
         ''abcdefghijklmno: 99999     80    0    0 7777      60'']),
      ifindex_ok := (\<lambda>b. cstr (take 15 b) = ''lo'' \<or> cstr (take 15 b) = ''abcdefghijklmno''),
      ifconf_req := Some [\<lparr>ifr_name = ''lo'', sin_addr = In_addr 127 0 0 1\<rparr>,
                          \<lparr>ifr_name = ''abcdefghijklmno'', sin_addr = In_addr 192 168 1 10\<rparr>],
      if_inet6 := Some (text_lines
        [''00000000000000000000000000000001 01 80 10 80       lo'',
         ''fe800000000000000000000000000001 02 40 20 80 abcdefghijklmno''])\<rparr>"

text \<open>Listings with a data line whose first token has no colon.\<close>

definition listing_no_colon :: string where
  "listing_no_colon = text_lines
     [''Inter-|   Receive                |  Transmit'',
      '' face |bytes    packets errs drop|bytes    packets'',
      ''  eth0  99999     80    0    0 7777      60'']"

definition sys_bad_line :: system where
  "sys_bad_line = sys_example\<lparr>proc_net_dev := Some (text_lines
     [''Inter-|   Receive                |  Transmit'',
      '' face |bytes    packets errs drop|bytes    packets'',
      ''    lo: 1234      12    0    0 1234      12'',
      ''  eth0  99999     80    0    0 7777      60'',
      '' wlan0: 5         1     0    0 5         1''])\<rparr>"

section \<open>Properties\<close>

subsection \<open>\<^verbatim>\<open>remove_bad_interfaces\<close>\<close>

text \<open>The invariant of the loop, for an array \<open>ifs\<close> that started as \<open>ifs0\<close>: the
  entries from \<open>in_ix\<close> on are untouched, and the first \<open>out_ix\<close> entries are the good
  names among the first \<open>in_ix\<close> ones.\<close>

lemma rbi_loop_inv:
  "out_ix \<le> in_ix \<Longrightarrow> in_ix \<le> n \<Longrightarrow> n \<le> length ifs0 \<Longrightarrow> length ifs = length ifs0 \<Longrightarrow>
   drop in_ix ifs = drop in_ix ifs0 \<Longrightarrow>
   take out_ix ifs = filter (exists_ifc probe) (take in_ix ifs0) \<Longrightarrow>
   \<exists>ifs' k e'. rbi_loop probe n ifs in_ix out_ix e = Some (ifs', k, e') \<and>
      length ifs' = length ifs0 \<and>
      take k ifs' = filter (exists_ifc probe) (take n ifs0) \<and>
      k = length (filter (exists_ifc probe) (take n ifs0)) \<and>
      e' = e @ map Could_not_open_interface
                 (filter (\<lambda>nm. \<not> exists_ifc probe nm) (drop in_ix (take n ifs0)))"
proof (induction probe n ifs in_ix out_ix e rule: rbi_loop.induct)
  case (1 probe n ifs in_ix out_ix e)
  show ?case
  proof (cases "in_ix < n")
    case False
    with "1.prems" have eq: "in_ix = n" by simp
    have "length (take out_ix ifs) = out_ix" using "1.prems"(1-4) by simp
    moreover have "length (take out_ix ifs) = length (filter (exists_ifc probe) (take in_ix ifs0))"
      by (rule arg_cong [OF "1.prems"(6)])
    ultimately have len: "length (filter (exists_ifc probe) (take n ifs0)) = out_ix"
      using eq by simp
    with "1.prems" eq show ?thesis
      by (subst rbi_loop.simps) simp
  next
    case True
    then have lt: "in_ix < length ifs" "in_ix < length ifs0" using "1.prems" by auto
    have nth: "ifs ! in_ix = ifs0 ! in_ix"
      using "1.prems"(5) lt by (metis hd_drop_conv_nth)
    have tk: "take (Suc in_ix) ifs0 = take in_ix ifs0 @ [ifs0 ! in_ix]"
      using lt by (simp add: take_Suc_conv_app_nth)
    have dr: "drop in_ix (take n ifs0) = ifs0 ! in_ix # drop (Suc in_ix) (take n ifs0)"
    proof -
      have "in_ix < length (take n ifs0)" using True lt by simp
      then have "drop in_ix (take n ifs0) = take n ifs0 ! in_ix # drop (Suc in_ix) (take n ifs0)"
        by (rule Cons_nth_drop_Suc [symmetric])
      then show ?thesis using True by simp
    qed
    show ?thesis
    proof (cases "probe (strncpy IFNAMSIZ (ifs ! in_ix))")
      case False
      then have bad: "\<not> exists_ifc probe (ifs0 ! in_ix)" by (simp add: exists_ifc_def nth)
      have "\<exists>ifs' k e'.
          rbi_loop probe n ifs (Suc in_ix) out_ix (e @ [Could_not_open_interface (ifs ! in_ix)])
            = Some (ifs', k, e') \<and>
          length ifs' = length ifs0 \<and>
          take k ifs' = filter (exists_ifc probe) (take n ifs0) \<and>
          k = length (filter (exists_ifc probe) (take n ifs0)) \<and>
          e' = (e @ [Could_not_open_interface (ifs ! in_ix)]) @ map Could_not_open_interface
                 (filter (\<lambda>nm. \<not> exists_ifc probe nm) (drop (Suc in_ix) (take n ifs0)))"
      proof (rule "1.IH"(1))
        show "in_ix < n" by fact
        show "\<not> length ifs \<le> in_ix" using lt by simp
        show "\<not> probe (strncpy IFNAMSIZ (ifs ! in_ix))" by fact
        show "out_ix \<le> Suc in_ix" using "1.prems" by simp
        show "Suc in_ix \<le> n" using True by simp
        show "n \<le> length ifs0" by fact
        show "length ifs = length ifs0" by fact
        show "drop (Suc in_ix) ifs = drop (Suc in_ix) ifs0"
          using "1.prems"(5) by (metis drop_Suc tl_drop)
        show "take out_ix ifs = filter (exists_ifc probe) (take (Suc in_ix) ifs0)"
          using "1.prems"(6) bad by (simp add: tk)
      qed
      then show ?thesis
        using True lt False bad
        by (subst rbi_loop.simps) (auto simp: dr nth)
    next
      case good: True
      then have ok: "exists_ifc probe (ifs0 ! in_ix)" by (simp add: exists_ifc_def nth)
      have "\<exists>ifs' k e'.
          rbi_loop probe n (ifs[out_ix := ifs ! in_ix]) (Suc in_ix) (Suc out_ix) e
            = Some (ifs', k, e') \<and>
          length ifs' = length ifs0 \<and>
          take k ifs' = filter (exists_ifc probe) (take n ifs0) \<and>
          k = length (filter (exists_ifc probe) (take n ifs0)) \<and>
          e' = e @ map Could_not_open_interface
                 (filter (\<lambda>nm. \<not> exists_ifc probe nm) (drop (Suc in_ix) (take n ifs0)))"
      proof (rule "1.IH"(2))
        show "in_ix < n" by fact
        show "\<not> length ifs \<le> in_ix" using lt by simp
        show "\<not> \<not> probe (strncpy IFNAMSIZ (ifs ! in_ix))" using good by simp
        show "Suc out_ix \<le> Suc in_ix" using "1.prems" by simp
        show "Suc in_ix \<le> n" using True by simp
        show "n \<le> length ifs0" by fact
        show "length (ifs[out_ix := ifs ! in_ix]) = length ifs0" using "1.prems" by simp
        show "drop (Suc in_ix) (ifs[out_ix := ifs ! in_ix]) = drop (Suc in_ix) ifs0"
          using "1.prems" by (metis drop_Suc drop_update_cancel le_imp_less_Suc tl_drop)
        have "take (Suc out_ix) (ifs[out_ix := ifs ! in_ix]) = take out_ix ifs @ [ifs ! in_ix]"
          using "1.prems" lt by (simp add: take_Suc_conv_app_nth)
        then show "take (Suc out_ix) (ifs[out_ix := ifs ! in_ix]) =
            filter (exists_ifc probe) (take (Suc in_ix) ifs0)"
          using "1.prems" ok by (simp add: tk nth)
      qed
      then show ?thesis
        using True lt good ok
        by (subst rbi_loop.simps) (auto simp: dr nth)
    qed
  qed
qed

text \<open>What a call returns when the array has its \<open>n\<close> entries: the new count, the
  diagnostics, one for each bad name in order, and the array, whose first entries are
  the good names in order.\<close>

lemma remove_bad_interfaces_result:
  assumes "n \<le> length ifs"
  shows "\<exists>ifs'. remove_bad_interfaces probe ifs n =
           Some (ifs', length (filter (exists_ifc probe) (take n ifs)),
                 map Could_not_open_interface
                   (filter (\<lambda>nm. \<not> exists_ifc probe nm) (take n ifs))) \<and>
         length ifs' = length ifs \<and>
         take (length (filter (exists_ifc probe) (take n ifs))) ifs' =
           filter (exists_ifc probe) (take n ifs)"
proof -
  have "\<exists>ifs' k e'. rbi_loop probe n ifs 0 0 [] = Some (ifs', k, e') \<and>
      length ifs' = length ifs \<and>
      take k ifs' = filter (exists_ifc probe) (take n ifs) \<and>
      k = length (filter (exists_ifc probe) (take n ifs)) \<and>
      e' = [] @ map Could_not_open_interface
                 (filter (\<lambda>nm. \<not> exists_ifc probe nm) (drop 0 (take n ifs)))"
    using assms by (intro rbi_loop_inv) simp_all
  then show ?thesis
    unfolding remove_bad_interfaces_def by auto
qed

text \<open>
  Claim C10. For every array of \<open>n\<close> candidate names and every outcome of the probes,
  \<^verbatim>\<open>remove_bad_interfaces\<close> returns normally, the first \<^verbatim>\<open>*num_interfaces\<close> entries
  of the array are then exactly the names whose probe succeeds, in their original
  order, and \<^verbatim>\<open>*num_interfaces\<close> is the number of those names.
\<close>

theorem remove_bad_interfaces_subsequence:
  assumes "n \<le> length ifs"
  shows "map_option (\<lambda>(ifs', k, e). (take k ifs', k)) (remove_bad_interfaces probe ifs n) =
         Some (filter (exists_ifc probe) (take n ifs),
               length (filter (exists_ifc probe) (take n ifs)))"
  using remove_bad_interfaces_result [OF assms, of probe] by auto

theorem remove_bad_interfaces_subsequence_witness:
  "map_option (\<lambda>(ifs', k, e). (take k ifs', k))
     (remove_bad_interfaces (\<lambda>b. b \<noteq> strncpy IFNAMSIZ ''bogus0'')
        [''bogus0'', ''lo'', ''bogus0'', ''eth0''] 4) =
   Some ([''lo'', ''eth0''], 2)"
  using remove_bad_interfaces_subsequence
    [of 4 "[''bogus0'', ''lo'', ''bogus0'', ''eth0'']" "\<lambda>b. b \<noteq> strncpy IFNAMSIZ ''bogus0''"]
  by (simp add: exists_ifc_def strncpy_def IFNAMSIZ_def numeral_2_eq_2)

subsection \<open>Reconstruction of the IPv6 notation\<close>

text \<open>\<^verbatim>\<open>%.4s\<close> inside a token just stored: four bytes of the token.\<close>

lemma prec4_stored:
  assumes "NUL \<notin> set tok" "off \<le> length tok"
  shows "prec4 (tok @ NUL # r) off = take 4 (drop off tok)"
proof -
  have "\<forall>c\<in>set (drop off tok). c \<noteq> NUL"
    using assms(1) by (auto dest: in_set_dropD)
  then have "takeWhile (\<lambda>c. c \<noteq> NUL) (drop off tok @ NUL # r) = drop off tok"
    by (simp add: takeWhile_tail)
  then show ?thesis using assms(2) by (simp add: prec4_def cstr_def)
qed

lemma isxdigit_not_NUL: "isxdigit c \<Longrightarrow> c \<noteq> NUL"
  by (auto simp: isxdigit_def NUL_def)

text \<open>
  Claim C4. The reconstruction is a function of the token alone: for every token of 32
  hexadecimal digits, whatever the array \<^verbatim>\<open>ip\<close> held before \<^verbatim>\<open>fscanf\<close> stored the
  token, the text printed is the eight groups of four characters of the token, in
  order, joined by colons, with no zero compression.
\<close>

theorem pretty_ip_groups:
  assumes "length buf = ADDRSTRLEN" "length ip = 32" "\<forall>c\<in>set ip. isxdigit c"
  shows "map_option pretty_ip (store_str buf ip) =
         Some (take 4 ip @ colon # take 4 (drop 4 ip) @ colon # take 4 (drop 8 ip) @ colon #
               take 4 (drop 12 ip) @ colon # take 4 (drop 16 ip) @ colon #
               take 4 (drop 20 ip) @ colon # take 4 (drop 24 ip) @ colon #
               take 4 (drop 28 ip))"
proof -
  have nul: "NUL \<notin> set ip" using assms(3) isxdigit_not_NUL by blast
  have st: "store_str buf ip = Some (ip @ NUL # drop 33 buf)"
    using assms(1,2) by (simp add: store_str_def ADDRSTRLEN_def)
  have p: "prec4 (ip @ NUL # drop 33 buf) off = take 4 (drop off ip)" if "off \<le> 32" for off
    using prec4_stored [OF nul, of off] assms(2) that by simp
  have len: "length (take 4 (drop off ip)) = 4" if "off \<le> 28" for off
    using assms(2) that by simp
  have len0: "length (take 4 ip) = 4"
    using assms(2) by simp
  have "pretty_ip (ip @ NUL # drop 33 buf) =
        take 45 (take 4 (drop 0 ip) @ colon # take 4 (drop 4 ip) @ colon #
               take 4 (drop 8 ip) @ colon #
               take 4 (drop 12 ip) @ colon # take 4 (drop 16 ip) @ colon #
               take 4 (drop 20 ip) @ colon # take 4 (drop 24 ip) @ colon #
               take 4 (drop 28 ip))"
    unfolding pretty_ip_def ADDRSTRLEN_def by (simp only: p diff_numeral_special) simp
  also have "\<dots> = take 4 (drop 0 ip) @ colon # take 4 (drop 4 ip) @ colon #
               take 4 (drop 8 ip) @ colon #
               take 4 (drop 12 ip) @ colon # take 4 (drop 16 ip) @ colon #
               take 4 (drop 20 ip) @ colon # take 4 (drop 24 ip) @ colon #
               take 4 (drop 28 ip)"
    by (rule take_all) (simp add: len len0 del: length_take length_drop)
  finally show ?thesis by (simp add: st)
qed

theorem pretty_ip_groups_witness:
  "map_option pretty_ip
     (store_str (replicate 46 (CHR ''?'')) ''fe800000000000000000000000000001'') =
   Some ''fe80:0000:0000:0000:0000:0000:0000:0001''"
proof -
  have "\<forall>c\<in>set ''fe800000000000000000000000000001''. isxdigit c"
    by (simp add: isxdigit_def)
  from pretty_ip_groups
    [of "replicate 46 (CHR ''?'')" "''fe800000000000000000000000000001''", OF _ _ this]
  show ?thesis by (simp add: ADDRSTRLEN_def colon_def)
qed

subsection \<open>The command line\<close>

lemma apply_key_fields:
  "ipv4 (apply_key a k) = (ipv4 a \<or> k = Key_4)"
  "ipv6 (apply_key a k) = (ipv6 a \<or> k = Key_6)"
  "ip_version_specified (apply_key a k) = (ip_version_specified a \<or> k = Key_4 \<or> k = Key_6)"
  "list_interfaces (apply_key a k) = (list_interfaces a \<or> k = OPT_LIST_INTERFACES)"
  by (cases k; simp add: apply_key_def)+

lemma key_of_eq:
  "key_of f = Key_4 \<longleftrightarrow> f = Flag_4"
  "key_of f = Key_6 \<longleftrightarrow> f = Flag_6"
  "key_of f = OPT_LIST_INTERFACES \<longleftrightarrow> f = Flag_list_interfaces"
  "key_of f \<noteq> ARGP_KEY_ARGS ns"
  by (cases f; simp)+

lemma foldl_apply_key_fields:
  "ipv4 (foldl apply_key a (map key_of fs)) = (ipv4 a \<or> Flag_4 \<in> set fs)"
  "ipv6 (foldl apply_key a (map key_of fs)) = (ipv6 a \<or> Flag_6 \<in> set fs)"
  "ip_version_specified (foldl apply_key a (map key_of fs)) =
     (ip_version_specified a \<or> Flag_4 \<in> set fs \<or> Flag_6 \<in> set fs)"
  "list_interfaces (foldl apply_key a (map key_of fs)) =
     (list_interfaces a \<or> Flag_list_interfaces \<in> set fs)"
  by (induction fs arbitrary: a; auto simp: apply_key_fields key_of_eq)+



lemma argp_parse_ipv4: "ipv4 (argp_parse c) = (Flag_4 \<in> set (opts c))"
  by (simp add: argp_parse_def Let_def foldl_apply_key_fields apply_key_fields args0_def)

lemma argp_parse_ipv6: "ipv6 (argp_parse c) = (Flag_6 \<in> set (opts c))"
  by (simp add: argp_parse_def Let_def foldl_apply_key_fields apply_key_fields args0_def)

lemma argp_parse_version:
  "ip_version_specified (argp_parse c) = (Flag_4 \<in> set (opts c) \<or> Flag_6 \<in> set (opts c))"
  by (simp add: argp_parse_def Let_def foldl_apply_key_fields apply_key_fields args0_def)



subsection \<open>The output of a run\<close>

lemma out_inet6_part: "out (inet6_part sys a ls4 e) = ls4 @ ip6_lines sys a"
  by (simp add: inet6_part_def ip6_lines_def errorout_def split: option.split prod.split)

lemma out_addresses_part:
  "out (addresses_part sys a e) = [] \<or>
   (\<exists>len table. ifconf_len sys = Some len \<and> ifconf_req sys = Some table \<and>
      out (addresses_part sys a e) = ipv4_loop a (ifc_req len table) @ ip6_lines sys a)"
  by (simp add: addresses_part_def errorout_def out_inet6_part split: option.split)

lemma out_checks_part:
  "out (checks_part sys a) = [] \<or>
   (\<exists>ifs k e len table.
      remove_bad_interfaces (ifindex_ok sys) (interfaces a) (num_interfaces a) = Some (ifs, k, e) \<and>
      ifconf_len sys = Some len \<and> ifconf_req sys = Some table \<and>
      out (checks_part sys a) =
        ipv4_loop (a\<lparr>interfaces := ifs, num_interfaces := k\<rparr>) (ifc_req len table) @
        ip6_lines sys (a\<lparr>interfaces := ifs, num_interfaces := k\<rparr>))"
proof (cases "remove_bad_interfaces (ifindex_ok sys) (interfaces a) (num_interfaces a)")
  case None
  then show ?thesis by (simp add: checks_part_def errorout_def)
next
  case (Some r)
  obtain ifs k e where r: "r = (ifs, k, e)" by (cases r)
  show ?thesis
    using out_addresses_part [of sys "a\<lparr>interfaces := ifs, num_interfaces := k\<rparr>" e] Some r
    by (auto simp: checks_part_def errorout_def)
qed

lemma argp_end_run_lines: "p \<in> set (out (argp_end_run sys e)) \<Longrightarrow> \<not> is_address_line p"
  by (cases e) auto

text \<open>A run prints address lines only when \<^verbatim>\<open>argp_parse\<close> returns and the list mode
  is off; its lines are then those of lines 208-276.\<close>

lemma out_main:
  "(\<forall>p\<in>set (out (main sys c)). \<not> is_address_line p) \<or>
   (argp_exits (opts c) = None \<and> \<not> list_interfaces (argp_parse c) \<and>
    out (main sys c) = out (checks_part sys (argp_parse c)))"
proof (cases "argp_exits (opts c)")
  case (Some e)
  then show ?thesis by (auto simp: main_def dest: argp_end_run_lines)
next
  case None
  then show ?thesis
    by (cases "get_interfaces (proc_net_dev sys)") (auto simp: main_def Let_def)
qed


subsection \<open>Characters of the printed lines\<close>

lemma isdigit_digit: "n < 10 \<Longrightarrow> isdigit (digit n)"
  unfolding isdigit_def digit_def by (rule nth_mem) simp

lemma isdigit_dec: "c \<in> set (dec n) \<Longrightarrow> isdigit c"
proof (induction n rule: dec.induct)
  case (1 n)
  show ?case
  proof (cases "n < 10")
    case True
    with "1.prems" show ?thesis by (simp add: dec.simps [of n] isdigit_digit)
  next
    case False
    with "1.prems" have "c \<in> set (dec (n div 10)) \<or> c = digit (n mod 10)"
      by (auto simp: dec.simps [of n])
    then show ?thesis
      using "1.IH" False isdigit_digit [of "n mod 10"] by auto
  qed
qed

lemma isdigit_not_colon: "isdigit c \<Longrightarrow> c \<noteq> colon"
  by (auto simp: isdigit_def colon_def)

lemma colon_not_dot: "colon \<noteq> dot"
  by (simp add: colon_def dot_def)

lemma inet_ntop4_chars: "c \<in> set (inet_ntop4 x) \<Longrightarrow> isdigit c \<or> c = dot"
  by (cases x) (auto dest: isdigit_dec)

lemma inet_ntop4_no_colon: "colon \<notin> set (inet_ntop4 x)"
  using inet_ntop4_chars [of colon x] isdigit_not_colon colon_not_dot by blast

lemma pretty_ip_colon: "colon \<in> set (pretty_ip ip)"
proof -
  have "length (prec4 ip 0) \<le> 4" by (simp add: prec4_def)
  then have "take 45 (prec4 ip 0 @ colon # r) = prec4 ip 0 @ colon # take (44 - length (prec4 ip 0)) r"
    for r by (simp add: take_Cons')
  then show ?thesis by (simp add: pretty_ip_def ADDRSTRLEN_def)
qed

lemma split_dots_chars:
  "c \<in> set s \<Longrightarrow> c = dot \<or> (\<exists>f\<in>set (split_dots s cur). c \<in> set f)"
  "c \<in> set cur \<Longrightarrow> \<exists>f\<in>set (split_dots s cur). c \<in> set f"
proof (induction s arbitrary: cur)
  case Nil
  { case 1 then show ?case by simp }
  { case 2 then show ?case by simp }
next
  case (Cons x xs)
  { case 1 
    then show ?case using Cons.IH(1) [of "[]"] Cons.IH(1) [of "cur @ [x]"] Cons.IH(2) [of "cur @ [x]"] by auto }
  { case 2 
    then show ?case using Cons.IH(2) [of "cur @ [x]"] by auto }
qed

lemma dotted_decimal_no_colon: "is_dotted_decimal s \<Longrightarrow> colon \<notin> set s"
proof
  assume d: "is_dotted_decimal s" and c: "colon \<in> set s"
  from split_dots_chars(1) [OF c, of "[]"] colon_not_dot
  obtain f where f: "f \<in> set (split_dots s [])" "colon \<in> set f" by auto
  from d f(1) have "list_all isdigit f"
    by (auto simp: is_dotted_decimal_def Let_def list_all_iff)
  with f(2) show False using isdigit_not_colon by (auto simp: list_all_iff)
qed

lemma parse_interface_line_no_colon:
  "parse_interface_line l = Some nm \<Longrightarrow> colon \<notin> set nm"
  by (auto simp: parse_interface_line_def split: option.splits if_splits dest: set_takeWhileD)

lemma parse_interface_lines_no_colon:
  "parse_interface_lines ls = Some nms \<Longrightarrow> nm \<in> set nms \<Longrightarrow> colon \<notin> set nm"
proof (induction ls arbitrary: nms)
  case Nil
  then show ?case by simp
next
  case (Cons l ls)
  then show ?case
    by (auto split: option.splits dest: parse_interface_line_no_colon)
qed

lemma get_interfaces_no_colon:
  "get_interfaces f = Ok nms \<Longrightarrow> nm \<in> set nms \<Longrightarrow> colon \<notin> set nm"
  by (auto simp: get_interfaces_def Let_def split: option.splits if_splits
      dest: parse_interface_lines_no_colon)

subsection \<open>The lines of the two loops\<close>

lemma lfind_iff: "lfind k base n \<noteq> None \<longleftrightarrow> k \<in> set (take n base)"
  by (auto simp: lfind_def find_None_iff)

lemma lfind_Some_iff: "(\<exists>y. lfind k base n = Some y) \<longleftrightarrow> k \<in> set (take n base)"
  using lfind_iff [of k base n] by simp

lemma ipv4_loop_lines:
  "l \<in> set (ipv4_loop a reqs) \<Longrightarrow>
   \<exists>r\<in>set reqs. l = Address_line (ifr_name r) AF_INET (inet_ntop4 (sin_addr r)) \<and>
     (\<not> ip_version_specified a \<or> ipv4 a) \<and>
     (\<not> interfaces_specified a \<or> ifr_name r \<in> set (take (num_interfaces a) (interfaces a)))"
  by (induction reqs) (auto simp: lfind_Some_iff split: if_splits)

lemma ipv4_loop_not_requested:
  "ip_version_specified a \<Longrightarrow> \<not> ipv4 a \<Longrightarrow> ipv4_loop a reqs = []"
  by (induction reqs) auto

lemma inet6_body_lines:
  "inet6_body a ip ifc = Some ls \<Longrightarrow> l \<in> set ls \<Longrightarrow>
   l = Address_line (cstr ifc) AF_INET6 (pretty_ip ip) \<and>
   (\<not> interfaces_specified a \<or> cstr ifc \<in> set (take (num_interfaces a) (interfaces a)))"
  by (auto simp: inet6_body_def cstr_of_def lfind_Some_iff split: if_splits option.splits)

lemma inet6_loop_lines:
  "l \<in> set (fst (inet6_loop a ip ifc toks)) \<Longrightarrow>
   \<exists>nm ipb. l = Address_line nm AF_INET6 (pretty_ip ipb) \<and>
     (\<not> interfaces_specified a \<or> nm \<in> set (take (num_interfaces a) (interfaces a)))"
proof (induction a ip ifc toks rule: inet6_loop.induct)
  case (1 a ip ifc)
  then show ?case by simp
next
  case (2 a ip ifc t1 t2 t3 t4 t5 t6 rest)
  from "2.prems" obtain ip' ifc' ls where
    s: "store_str ip t1 = Some ip'" "store_str ifc t6 = Some ifc'"
       "inet6_body a ip' ifc' = Some ls"
    and l: "l \<in> set ls \<or> l \<in> set (fst (inet6_loop a ip' ifc' rest))"
    by (auto split: option.splits prod.splits)
  then show ?case
    using "2.IH" [OF s] inet6_body_lines [OF s(3)] by blast
qed (auto split: option.splits dest: inet6_body_lines)

lemma ip6_lines_lines:
  assumes "p \<in> set (ip6_lines sys a)"
  shows "(\<not> ip_version_specified a \<or> ipv6 a) \<and>
    (\<exists>nm ipb. p = Address_line nm AF_INET6 (pretty_ip ipb) \<and>
       (\<not> interfaces_specified a \<or> nm \<in> set (take (num_interfaces a) (interfaces a))))"
proof (cases "\<not> ip_version_specified a \<or> ipv6 a")
  case False
  then have "ip6_lines sys a = []" by (simp add: ip6_lines_def)
  with assms show ?thesis by simp
next
  case True
  have "\<exists>tbl. p \<in> set (fst (inet6_loop a (map (stack_ip sys) [0..<ADDRSTRLEN])
                    (map (stack_ifc sys) [0..<IFNAMSIZ]) (tokens tbl [])))"
  proof (cases "if_inet6 sys")
    case None
    then have "ip6_lines sys a = []" by (simp add: ip6_lines_def)
    with assms show ?thesis by simp
  next
    case (Some tbl)
    with True have "ip6_lines sys a = fst (inet6_loop a (map (stack_ip sys) [0..<ADDRSTRLEN])
                    (map (stack_ifc sys) [0..<IFNAMSIZ]) (tokens tbl []))"
      by (simp add: ip6_lines_def)
    with assms show ?thesis by auto
  qed
  then obtain tbl where "p \<in> set (fst (inet6_loop a (map (stack_ip sys) [0..<ADDRSTRLEN])
                    (map (stack_ifc sys) [0..<IFNAMSIZ]) (tokens tbl [])))" ..
  from inet6_loop_lines [OF this] True show ?thesis by blast
qed

text \<open>Every line of a run that is not in list mode is an address line of one of the two
  loops, printed with the arguments as \<^verbatim>\<open>remove_bad_interfaces\<close> left them.\<close>

lemma checks_part_lines:
  assumes "p \<in> set (out (checks_part sys a))"
  shows "\<exists>ifs k e.
     remove_bad_interfaces (ifindex_ok sys) (interfaces a) (num_interfaces a) = Some (ifs, k, e) \<and>
     ((\<exists>r::ifreq. p = Address_line (ifr_name r) AF_INET (inet_ntop4 (sin_addr r)) \<and>
           (\<not> ip_version_specified a \<or> ipv4 a) \<and>
           (\<not> interfaces_specified a \<or> ifr_name r \<in> set (take k ifs))) \<or>
      (\<exists>nm ipb. p = Address_line nm AF_INET6 (pretty_ip ipb) \<and>
           (\<not> ip_version_specified a \<or> ipv6 a) \<and>
           (\<not> interfaces_specified a \<or> nm \<in> set (take k ifs))))"
proof -
  have "out (checks_part sys a) \<noteq> []" using assms by auto
  with out_checks_part [of sys a] obtain ifs k e len table where
    r: "remove_bad_interfaces (ifindex_ok sys) (interfaces a) (num_interfaces a) = Some (ifs, k, e)"
    and o: "out (checks_part sys a) =
        ipv4_loop (a\<lparr>interfaces := ifs, num_interfaces := k\<rparr>) (ifc_req len table) @
        ip6_lines sys (a\<lparr>interfaces := ifs, num_interfaces := k\<rparr>)"
    by blast
  define a' where "a' = a\<lparr>interfaces := ifs, num_interfaces := k\<rparr>"
  have sel: "ip_version_specified a' = ip_version_specified a" "ipv4 a' = ipv4 a"
    "ipv6 a' = ipv6 a" "interfaces_specified a' = interfaces_specified a"
    "interfaces a' = ifs" "num_interfaces a' = k"
    by (simp_all add: a'_def)
  from assms have "p \<in> set (ipv4_loop a' (ifc_req len table) @ ip6_lines sys a')"
    by (simp only: o a'_def)
  then consider "p \<in> set (ipv4_loop a' (ifc_req len table))" | "p \<in> set (ip6_lines sys a')"
    by (auto simp only: set_append Un_iff)
  then show ?thesis
  proof cases
    case 1
    from ipv4_loop_lines [OF 1, unfolded sel] r show ?thesis by blast
  next
    case 2
    from ip6_lines_lines [OF 2, unfolded sel] r show ?thesis by blast
  qed
qed

subsection \<open>The family options\<close>

text \<open>
  Claim C6. For every system and every command line: with \<^verbatim>\<open>-4\<close> and without
  \<^verbatim>\<open>-6\<close>, no address line on standard output contains a colon; with \<^verbatim>\<open>-6\<close> and
  without \<^verbatim>\<open>-4\<close>, no address line on standard output is in dotted-decimal form
  (each contains a colon). The other lines a run can print are not addresses: the
  interface names of \<^verbatim>\<open>--list-interfaces\<close>, and argp's help list and usage message.
\<close>

theorem family_filter_lines:
  "(Flag_4 \<in> set (opts c) \<and> Flag_6 \<notin> set (opts c) \<longrightarrow>
      (\<forall>l\<in>set (address_lines (main sys c)). colon \<notin> set l)) \<and>
   (Flag_6 \<in> set (opts c) \<and> Flag_4 \<notin> set (opts c) \<longrightarrow>
      (\<forall>l\<in>set (address_lines (main sys c)). \<not> is_dotted_decimal l))"
proof (intro conjI impI ballI)
  fix l
  assume k: "Flag_4 \<in> set (opts c) \<and> Flag_6 \<notin> set (opts c)"
    and l: "l \<in> set (address_lines (main sys c))"
  from l obtain p where p: "p \<in> set (out (main sys c))" "is_address_line p" "l = text_of p"
    by (auto simp: address_lines_def)
  with out_main [of sys c] have "p \<in> set (out (checks_part sys (argp_parse c)))"
    by auto
  from checks_part_lines [OF this] k p(3) show "colon \<notin> set l"
    by (auto simp: argp_parse_ipv6 argp_parse_version inet_ntop4_no_colon)
next
  fix l
  assume k: "Flag_6 \<in> set (opts c) \<and> Flag_4 \<notin> set (opts c)"
    and l: "l \<in> set (address_lines (main sys c))"
  from l obtain p where p: "p \<in> set (out (main sys c))" "is_address_line p" "l = text_of p"
    by (auto simp: address_lines_def)
  with out_main [of sys c] have "p \<in> set (out (checks_part sys (argp_parse c)))"
    by auto
  from checks_part_lines [OF this] k p(3) have "colon \<in> set l"
    by (auto simp: argp_parse_ipv4 argp_parse_version pretty_ip_colon)
  then show "\<not> is_dotted_decimal l"
    using dotted_decimal_no_colon by blast
qed

text \<open>On the example host, with \<^verbatim>\<open>-4\<close> and with \<^verbatim>\<open>-6\<close>.\<close>

theorem family_filter_lines_witness:
  "address_lines (main sys_example \<lparr>opts = [Flag_4], names = []\<rparr>) =
     [''127.0.0.1'', ''192.168.1.10''] \<and>
   list_all (\<lambda>l. colon \<notin> set l) (address_lines (main sys_example \<lparr>opts = [Flag_4], names = []\<rparr>)) \<and>
   address_lines (main sys_example \<lparr>opts = [Flag_6], names = []\<rparr>) =
     [''0000:0000:0000:0000:0000:0000:0000:0001'', ''fe80:0000:0000:0000:0000:0000:0000:0001'',
      ''2001:0db8:0000:0000:0000:0000:0000:0007''] \<and>
   list_all (\<lambda>l. \<not> is_dotted_decimal l)
     (address_lines (main sys_example \<lparr>opts = [Flag_6], names = []\<rparr>))"
proof -
  have e4: "address_lines (main sys_example \<lparr>opts = [Flag_4], names = []\<rparr>) =
      [''127.0.0.1'', ''192.168.1.10'']"
    by code_simp
  have e6: "address_lines (main sys_example \<lparr>opts = [Flag_6], names = []\<rparr>) =
     [''0000:0000:0000:0000:0000:0000:0000:0001'', ''fe80:0000:0000:0000:0000:0000:0000:0001'',
      ''2001:0db8:0000:0000:0000:0000:0000:0007'']"
    by code_simp
  have "\<forall>l\<in>set (address_lines (main sys_example \<lparr>opts = [Flag_4], names = []\<rparr>)).
      colon \<notin> set l"
    using family_filter_lines [of "\<lparr>opts = [Flag_4], names = []\<rparr>" sys_example] by simp
  moreover
  have "\<forall>l\<in>set (address_lines (main sys_example \<lparr>opts = [Flag_6], names = []\<rparr>)).
      \<not> is_dotted_decimal l"
    using family_filter_lines [of "\<lparr>opts = [Flag_6], names = []\<rparr>" sys_example] by simp
  ultimately show ?thesis
    using e4 e6 by (simp only: list_all_iff)
qed

text \<open>With \<^verbatim>\<open>--help\<close> the run ends in \<^verbatim>\<open>argp_parse\<close>, whatever else is given.\<close>

lemma help_run: "main sys_example \<lparr>opts = [Flag_4, Flag_help], names = [''bogus0'']\<rparr> =
   \<lparr>status = EXIT_SUCCESS, out = map Help_line (help_text sys_example), err = []\<rparr>"
  by code_simp

subsection \<open>Runs on the example systems\<close>

text \<open>
  Claim C1 says that a loopback address (\<^verbatim>\<open>::1\<close>) and a link-local address
  (\<^verbatim>\<open>fe80::/10\<close>) are left out unless \<^verbatim>\<open>--include-loopback\<close> or
  \<^verbatim>\<open>--include-link-local\<close> is given. \<^verbatim>\<open>parse_opt\<close> stores both flags, and nothing
  reads them: on the example host, with \<^verbatim>\<open>-6\<close> and neither flag, the run prints the
  loopback address and the link-local address.
\<close>

theorem loopback_and_link_local_not_excluded:
  "include_loopback (argp_parse \<lparr>opts = [Flag_6], names = []\<rparr>) = False \<and>
   include_link_local (argp_parse \<lparr>opts = [Flag_6], names = []\<rparr>) = False \<and>
   stdout (main sys_example \<lparr>opts = [Flag_6], names = []\<rparr>) =
     [''0000:0000:0000:0000:0000:0000:0000:0001'', ''fe80:0000:0000:0000:0000:0000:0000:0001'',
      ''2001:0db8:0000:0000:0000:0000:0000:0007'']"
  by code_simp

text \<open>
  Claim C8 says that a listing of two header lines and N data lines gives N names, each
  the first token of its line without its colon suffix. For the listing with the one
  data line \<^verbatim>\<open>eth0  99999 ...\<close>, whose first token has no colon, \<^verbatim>\<open>index\<close>
  returns \<^verbatim>\<open>NULL\<close> and line 132 writes through it: no name is returned.
\<close>

theorem get_interfaces_no_colon_undefined:
  "get_interfaces (Some listing_no_colon) = Undefined_behaviour"
  by code_simp

text \<open>
  Claim C9 says that one malformed line is skipped and the run goes on. With a line
  whose first token has no colon between the lines of \<^verbatim>\<open>lo\<close> and \<^verbatim>\<open>wlan0\<close>, the
  run ends in \<^verbatim>\<open>get_interfaces\<close> with the write through \<^verbatim>\<open>NULL\<close> of line 132,
  and prints nothing.
\<close>

theorem bad_listing_line_ends_run:
  "main sys_bad_line \<lparr>opts = [], names = []\<rparr> = \<lparr>status = Undefined, out = [], err = []\<rparr>"
  by code_simp

text \<open>
  Claim C2 as stated fails: nothing removes repeated entries. When the IPv6 table
  holds the same line twice, the same address line, for the same interface and
  family, is printed twice.
\<close>

theorem repeated_table_line_printed_twice:
  "\<not> distinct (out (main sys_repeated \<lparr>opts = [Flag_6], names = []\<rparr>))"
  by code_simp




text \<open>A name that is no interface gets no diagnostic either when its probe succeeds:
  on the host with the interface \<^verbatim>\<open>abcdefghijklmno\<close>, the name
  \<^verbatim>\<open>abcdefghijklmnoZ\<close> fills the 16 bytes of \<^verbatim>\<open>ifr_name\<close>, the kernel reads the
  first 15, and the run prints nothing on either stream.\<close>

lemma long_name_no_diagnostic:
  "get_interfaces (proc_net_dev sys_long_name) = Ok [''lo'', ''abcdefghijklmno''] \<and>
   exists_ifc (ifindex_ok sys_long_name) ''abcdefghijklmnoZ'' \<and>
   main sys_long_name \<lparr>opts = [], names = [''abcdefghijklmnoZ'']\<rparr> =
     \<lparr>status = EXIT_SUCCESS, out = [], err = []\<rparr>"
  by code_simp

subsection \<open>The lines of the loops, in the order of the tables\<close>

lemma subseq_set: "subseq xs ys \<Longrightarrow> set xs \<subseteq> set ys"
  by (induction rule: list_emb.induct) auto

lemma subseq_distinct: "subseq xs ys \<Longrightarrow> distinct ys \<Longrightarrow> distinct xs"
proof (induction rule: list_emb.induct)
  case (list_emb_Cons2 x y xs ys)
  then show ?case using subseq_set [of xs ys] by auto
qed auto

lemma ipv4_loop_subseq:
  "subseq (ipv4_loop a reqs)
     (map (\<lambda>r. Address_line (ifr_name r) AF_INET (inet_ntop4 (sin_addr r))) reqs)"
  by (induction reqs) auto

lemma inet6_body_subseq:
  "inet6_body a ip ifc = Some ls \<Longrightarrow>
   subseq ls [Address_line (cstr ifc) AF_INET6 (pretty_ip ip)]"
  by (auto simp: inet6_body_def cstr_of_def split: if_splits option.splits)

lemma inet6_loop_subseq:
  "subseq (fst (inet6_loop a ip ifc toks))
     (map (\<lambda>r. Address_line (cstr (snd r)) AF_INET6 (pretty_ip (fst r)))
        (fscanf_records ip ifc toks))"
proof (induction a ip ifc toks rule: inet6_loop.induct)
  case (1 a ip ifc)
  show ?case by simp
next
  case (2 a ip ifc t1 t2 t3 t4 t5 t6 rest)
  show ?case
  proof (cases "store_str ip t1")
    case None
    then show ?thesis by simp
  next
    case ip': (Some ip')
    show ?thesis
    proof (cases "store_str ifc t6")
      case None
      with ip' show ?thesis by simp
    next
      case ifc': (Some ifc')
      show ?thesis
      proof (cases "inet6_body a ip' ifc'")
        case None
        with ip' ifc' show ?thesis by simp
      next
        case (Some ls)
        have "subseq (ls @ fst (inet6_loop a ip' ifc' rest))
           ([Address_line (cstr ifc') AF_INET6 (pretty_ip ip')] @
            map (\<lambda>r. Address_line (cstr (snd r)) AF_INET6 (pretty_ip (fst r)))
              (fscanf_records ip' ifc' rest))"
          using inet6_body_subseq [OF Some] "2.IH" [OF ip' ifc' Some]
          by (rule list_emb_append_mono)
        with ip' ifc' Some show ?thesis
          by (simp add: case_prod_unfold)
      qed
    qed
  qed
qed (auto split: option.splits dest: inet6_body_subseq)

lemma ipv4_loop_family: "p \<in> set (ipv4_loop a reqs) \<Longrightarrow> \<exists>i t. p = Address_line i AF_INET t"
  by (auto dest: ipv4_loop_lines)

lemma ip6_lines_family: "p \<in> set (ip6_lines sys a) \<Longrightarrow> \<exists>i t. p = Address_line i AF_INET6 t"
  using ip6_lines_lines [of p sys a] by auto

subsection \<open>The IPv6 table and the exit status\<close>








subsection \<open>The records of the IPv6 table\<close>






lemma store_str_length: "store_str buf tok = Some b \<Longrightarrow> length b = length buf"
  by (auto simp: store_str_def split: if_splits)

lemma cstr_store_str:
  "store_str buf tok = Some b \<Longrightarrow> NUL \<notin> set tok \<Longrightarrow> cstr b = tok"
  by (auto simp: store_str_def cstr_def takeWhile_tail split: if_splits)






subsection \<open>Repeated lines\<close>

text \<open>The printed form of an IPv4 address determines the address.\<close>

lemma dec_not_Nil: "dec n \<noteq> []"
  by (subst dec.simps) simp

lemma digit_inj: "n < 10 \<Longrightarrow> m < 10 \<Longrightarrow> digit n = digit m \<Longrightarrow> n = m"
proof -
  assume a: "n < 10" "m < 10" "digit n = digit m"
  have "distinct ''0123456789''" by simp
  then show ?thesis
    using a nth_eq_iff_index_eq [of "''0123456789''" n m] by (simp add: digit_def)
qed

lemma dec_inj: "dec n = dec m \<Longrightarrow> n = m"
proof (induction n arbitrary: m rule: dec.induct)
  case (1 n)
  show ?case
  proof (cases "n < 10")
    case True
    show ?thesis
    proof (cases "m < 10")
      case m: True
      with True "1.prems" show ?thesis
        by (simp add: dec.simps [of n] dec.simps [of m] digit_inj)
    next
      case False
      with True "1.prems" dec_not_Nil [of "m div 10"] show ?thesis
        by (simp add: dec.simps [of n] dec.simps [of m])
    qed
  next
    case False
    show ?thesis
    proof (cases "m < 10")
      case True
      with False "1.prems" dec_not_Nil [of "n div 10"] show ?thesis
        by (simp add: dec.simps [of n] dec.simps [of m])
    next
      case m: False
      with False "1.prems" have "dec (n div 10) = dec (m div 10)"
        "digit (n mod 10) = digit (m mod 10)"
        by (simp_all add: dec.simps [of n] dec.simps [of m])
      with "1.IH" [OF False] have "n div 10 = m div 10" "n mod 10 = m mod 10"
        by (auto intro: digit_inj)
      then show ?thesis by (metis div_mult_mod_eq)
    qed
  qed
qed

lemma dot_not_digit: "dot \<notin> set (dec n)"
  using isdigit_dec [of dot n] by (auto simp: isdigit_def dot_def)

lemma append_dot_eq:
  assumes "dot \<notin> set xs" "dot \<notin> set ys" "xs @ dot # r = ys @ dot # r'"
  shows "xs = ys \<and> r = r'"
proof -
  have "takeWhile (\<lambda>c. c \<noteq> dot) (xs @ dot # r) = xs"
    "takeWhile (\<lambda>c. c \<noteq> dot) (ys @ dot # r') = ys"
    using assms(1,2) by (auto simp: takeWhile_tail)
  with assms(3) have "xs = ys" by simp
  with assms(3) show ?thesis by simp
qed

lemma inet_ntop4_inj: "inet_ntop4 x = inet_ntop4 y \<Longrightarrow> x = y"
proof (cases x; cases y)
  fix a b c d a' b' c' d'
  assume x: "x = In_addr a b c d" and y: "y = In_addr a' b' c' d'"
    and e: "inet_ntop4 x = inet_ntop4 y"
  from e x y have 1: "dec (unat a) = dec (unat a') \<and>
      dec (unat b) @ dot # dec (unat c) @ dot # dec (unat d) =
      dec (unat b') @ dot # dec (unat c') @ dot # dec (unat d')"
    by (intro append_dot_eq dot_not_digit) simp
  then have 2: "dec (unat b) = dec (unat b') \<and>
      dec (unat c) @ dot # dec (unat d) = dec (unat c') @ dot # dec (unat d')"
    by (intro append_dot_eq dot_not_digit) simp
  then have 3: "dec (unat c) = dec (unat c') \<and> dec (unat d) = dec (unat d')"
    by (intro append_dot_eq dot_not_digit) simp
  from 1 2 3 have "unat a = unat a'" "unat b = unat b'" "unat c = unat c'" "unat d = unat d'"
    by (auto dest: dec_inj)
  then show "x = y" using x y by (simp add: word_unat_eq_iff)
qed

text \<open>The eight groups of a token of 32 bytes determine the token.\<close>

lemma groups_of_32:
  assumes "length x = 32"
  shows "x = take 4 x @ take 4 (drop 4 x) @ take 4 (drop 8 x) @ take 4 (drop 12 x) @
             take 4 (drop 16 x) @ take 4 (drop 20 x) @ take 4 (drop 24 x) @ take 4 (drop 28 x)"
proof -
  have k: "drop k x = take 4 (drop k x) @ drop (k + 4) x" for k
    by (metis add.commute append_take_drop_id drop_drop)
  have "x = take 4 x @ drop 4 x" by simp
  also have "drop 4 x = take 4 (drop 4 x) @ drop 8 x" using k [of 4] by simp
  also have "drop 8 x = take 4 (drop 8 x) @ drop 12 x" using k [of 8] by simp
  also have "drop 12 x = take 4 (drop 12 x) @ drop 16 x" using k [of 12] by simp
  also have "drop 16 x = take 4 (drop 16 x) @ drop 20 x" using k [of 16] by simp
  also have "drop 20 x = take 4 (drop 20 x) @ drop 24 x" using k [of 20] by simp
  also have "drop 24 x = take 4 (drop 24 x) @ drop 28 x" using k [of 24] by simp
  also have "drop 28 x = take 4 (drop 28 x)" using assms by simp
  finally show ?thesis .
qed

lemma colon_groups_inj:
  assumes "length s = 32" "length t = 32" "colon_groups s = colon_groups t"
  shows "s = t"
proof -
  have l: "length (take 4 (drop k s)) = 4" "length (take 4 (drop k t)) = 4" if "k \<le> 28" for k
    using assms(1,2) that by simp_all
  have l0: "length (take 4 s) = 4" "length (take 4 t) = 4"
    using assms(1,2) by simp_all
  from assms(3) have "take 4 s = take 4 t \<and> take 4 (drop 4 s) = take 4 (drop 4 t) \<and>
    take 4 (drop 8 s) = take 4 (drop 8 t) \<and> take 4 (drop 12 s) = take 4 (drop 12 t) \<and>
    take 4 (drop 16 s) = take 4 (drop 16 t) \<and> take 4 (drop 20 s) = take 4 (drop 20 t) \<and>
    take 4 (drop 24 s) = take 4 (drop 24 t) \<and> take 4 (drop 28 s) = take 4 (drop 28 t)"
    unfolding colon_groups_def
    by (simp add: append_eq_append_conv l l0 del: length_take length_drop)
  then show ?thesis
    using groups_of_32 [OF assms(1)] groups_of_32 [OF assms(2)] by metis
qed

text \<open>A token of 32 bytes is printed as its eight groups, whatever \<^verbatim>\<open>ip\<close> held.\<close>

lemma pretty_ip_token:
  assumes "length buf = ADDRSTRLEN" "length t = 32" "NUL \<notin> set t"
  shows "\<exists>b. store_str buf t = Some b \<and> pretty_ip b = colon_groups t"
proof -
  have st: "store_str buf t = Some (t @ NUL # drop 33 buf)"
    using assms(1,2) by (simp add: store_str_def ADDRSTRLEN_def)
  have p: "prec4 (t @ NUL # drop 33 buf) off = take 4 (drop off t)" if "off \<le> 32" for off
    using prec4_stored [OF assms(3), of off] assms(2) that by simp
  have len: "length (take 4 (drop off t)) = 4" if "off \<le> 28" for off
    using assms(2) that by simp
  have len0: "length (take 4 t) = 4"
    using assms(2) by simp
  have "pretty_ip (t @ NUL # drop 33 buf) =
        take 45 (take 4 (drop 0 t) @ colon # take 4 (drop 4 t) @ colon #
               take 4 (drop 8 t) @ colon #
               take 4 (drop 12 t) @ colon # take 4 (drop 16 t) @ colon #
               take 4 (drop 20 t) @ colon # take 4 (drop 24 t) @ colon #
               take 4 (drop 28 t))"
    unfolding pretty_ip_def ADDRSTRLEN_def by (simp only: p diff_numeral_special) simp
  also have "\<dots> = take 4 (drop 0 t) @ colon # take 4 (drop 4 t) @ colon #
               take 4 (drop 8 t) @ colon #
               take 4 (drop 12 t) @ colon # take 4 (drop 16 t) @ colon #
               take 4 (drop 20 t) @ colon # take 4 (drop 24 t) @ colon #
               take 4 (drop 28 t)"
    by (rule take_all) (simp add: len len0 del: length_take length_drop)
  finally show ?thesis by (simp add: st colon_groups_def)
qed

lemma is_lower_hex_not_NUL: "is_lower_hex c \<Longrightarrow> c \<noteq> NUL"
  by (auto simp: is_lower_hex_def NUL_def)

text \<open>On a well-formed table the lines of the records read are those of its tokens.\<close>

lemma fscanf_records_well_formed:
  assumes "records_well_formed toks" "length ip = ADDRSTRLEN" "length ifc = IFNAMSIZ"
  shows "map (\<lambda>r. Address_line (cstr (snd r)) AF_INET6 (pretty_ip (fst r)))
           (fscanf_records ip ifc toks) =
         map (\<lambda>r. Address_line (snd r) AF_INET6 (colon_groups (fst r))) (table_records toks)"
  using assms
proof (induction toks arbitrary: ip ifc rule: records_well_formed.induct)
  case 1
  show ?case by simp
next
  case (2 t1 t2 t3 t4 t5 t6 rest)
  from "2.prems" have w: "length t1 = 32" "NUL \<notin> set t1" "length t6 < IFNAMSIZ"
    "NUL \<notin> set t6" "records_well_formed rest"
    by (auto simp: list_all_iff dest: is_lower_hex_not_NUL)
  from pretty_ip_token [OF "2.prems"(2) w(1,2)] obtain ip' where
    ip': "store_str ip t1 = Some ip'" "pretty_ip ip' = colon_groups t1" by blast
  from w(3) "2.prems"(3) obtain ifc' where ifc': "store_str ifc t6 = Some ifc'"
    by (auto simp: store_str_def)
  have c: "cstr ifc' = t6" using ifc' w(4) by (rule cstr_store_str)
  have "map (\<lambda>r. Address_line (cstr (snd r)) AF_INET6 (pretty_ip (fst r)))
           (fscanf_records ip' ifc' rest) =
         map (\<lambda>r. Address_line (snd r) AF_INET6 (colon_groups (fst r))) (table_records rest)"
    using w(5) store_str_length [OF ip'(1)] store_str_length [OF ifc'] "2.prems"(2,3)
    by (intro "2.IH") simp_all
  with ip' ifc' c show ?case by simp
qed simp_all

lemma table_records_length:
  "records_well_formed toks \<Longrightarrow> r \<in> set (table_records toks) \<Longrightarrow> length (fst r) = 32"
  by (induction toks rule: records_well_formed.induct) auto

lemma distinct_map_comp:
  assumes "distinct (map h xs)" "inj g"
  shows "distinct (map (\<lambda>x. g (h x)) xs)"
proof -
  have "distinct (map g (map h xs))"
    using assms by (simp only: distinct_map [of g]) (auto intro: inj_on_subset)
  then show ?thesis by (simp add: comp_def)
qed

lemma inj_ipv4_line: "inj (\<lambda>e. Address_line (fst e) AF_INET (inet_ntop4 (snd e)))"
  by (auto simp: inj_on_def prod_eq_iff dest: inet_ntop4_inj)

lemma distinct_ipv4_loop:
  assumes "distinct (map (\<lambda>r. (ifr_name r, sin_addr r)) table)"
  shows "distinct (ipv4_loop a (ifc_req len table))"
proof -
  have "distinct (map (\<lambda>r. (ifr_name r, sin_addr r)) (ifc_req len table))"
    using assms by (simp add: ifc_req_def take_map [symmetric] distinct_take)
  from distinct_map_comp [OF this inj_ipv4_line]
  have "distinct (map (\<lambda>r. Address_line (ifr_name r) AF_INET (inet_ntop4 (sin_addr r)))
      (ifc_req len table))"
    by simp
  with ipv4_loop_subseq show ?thesis by (rule subseq_distinct)
qed

lemma distinct_ip6_lines:
  assumes "ipv6_well_formed sys" "distinct (ipv6_entries sys)"
  shows "distinct (ip6_lines sys a)"
proof (cases "if_inet6 sys")
  case None
  then show ?thesis by (simp add: ip6_lines_def)
next
  case (Some tbl)
  define toks where "toks = tokens tbl []"
  have w: "records_well_formed toks" and d: "distinct (table_records toks)"
    using assms Some by (simp_all add: ipv6_well_formed_def ipv6_entries_def toks_def)
  have "inj_on (\<lambda>r. Address_line (snd r) AF_INET6 (colon_groups (fst r)))
      (set (table_records toks))"
    using table_records_length [OF w]
    by (auto simp: inj_on_def prod_eq_iff intro: colon_groups_inj)
  with d have "distinct (map (\<lambda>r. Address_line (snd r) AF_INET6 (colon_groups (fst r)))
      (table_records toks))"
    by (simp add: distinct_map)
  then have "distinct (map (\<lambda>r. Address_line (cstr (snd r)) AF_INET6 (pretty_ip (fst r)))
      (fscanf_records (map (stack_ip sys) [0..<ADDRSTRLEN])
         (map (stack_ifc sys) [0..<IFNAMSIZ]) toks))"
    using fscanf_records_well_formed [OF w, of "map (stack_ip sys) [0..<ADDRSTRLEN]"
        "map (stack_ifc sys) [0..<IFNAMSIZ]"]
    by simp
  with inet6_loop_subseq have "distinct (fst (inet6_loop a (map (stack_ip sys) [0..<ADDRSTRLEN])
               (map (stack_ifc sys) [0..<IFNAMSIZ]) toks))"
    by (rule subseq_distinct)
  with Some show ?thesis by (simp add: ip6_lines_def toks_def)
qed

text \<open>
  Claim C2, as amended. Take a run whose behaviour is defined, on a system where the
  table \<^verbatim>\<open>SIOCGIFCONF\<close> returns holds no (interface name, address) entry twice,
  and where the IPv6 table is made of six-token records, each with an address of 32
  lower-case hexadecimal digits and an interface name that fits \<^verbatim>\<open>ifc\<close>, and
  holds no (address, interface name) record twice. Then no address line is printed
  twice: the lines for one (interface name, family, address) triple are at most one.
  The program removes no repetition itself: it prints one line for each entry of
  either table that passes the filters.
\<close>

theorem address_lines_not_repeated:
  assumes "status (main sys c) \<noteq> Undefined"
    and "distinct (ipv4_entries sys)" "ipv6_well_formed sys" "distinct (ipv6_entries sys)"
  shows "distinct (filter is_address_line (out (main sys c)))"
proof -
  from out_main [of sys c] consider "\<forall>p\<in>set (out (main sys c)). \<not> is_address_line p"
    | "out (main sys c) = out (checks_part sys (argp_parse c))"
    by auto
  then show ?thesis
  proof cases
    case 1
    then have "filter is_address_line (out (main sys c)) = []"
      by (simp add: filter_empty_conv)
    then show ?thesis by simp
  next
    case 2
    from out_checks_part [of sys "argp_parse c"] consider
      "out (checks_part sys (argp_parse c)) = []"
      | a' len table where "ifconf_req sys = Some table"
        "out (checks_part sys (argp_parse c)) = ipv4_loop a' (ifc_req len table) @ ip6_lines sys a'"
      by auto
    then show ?thesis
    proof cases
      case 1
      with 2 show ?thesis by simp
    next
      case b: 2
      have "distinct (ipv4_loop a' (ifc_req len table))"
        using assms(2) b(1) by (intro distinct_ipv4_loop) (simp add: ipv4_entries_def)
      moreover have "distinct (ip6_lines sys a')"
        using assms(3,4) by (rule distinct_ip6_lines)
      moreover have "set (ipv4_loop a' (ifc_req len table)) \<inter> set (ip6_lines sys a') = {}"
        using ipv4_loop_family ip6_lines_family by fastforce
      ultimately have "distinct (out (main sys c))"
        using 2 b(2) by simp
      then show ?thesis by simp
    qed
  qed
qed

text \<open>On the example host, with no option.\<close>

theorem address_lines_not_repeated_witness:
  "status (main sys_example \<lparr>opts = [], names = []\<rparr>) = EXIT_SUCCESS \<and>
   distinct (ipv4_entries sys_example) \<and> ipv6_well_formed sys_example \<and>
   distinct (ipv6_entries sys_example) \<and>
   filter is_address_line (out (main sys_example \<lparr>opts = [], names = []\<rparr>)) =
     [Address_line ''lo'' AF_INET ''127.0.0.1'',
      Address_line ''eth0'' AF_INET ''192.168.1.10'',
      Address_line ''lo'' AF_INET6 ''0000:0000:0000:0000:0000:0000:0000:0001'',
      Address_line ''eth0'' AF_INET6 ''fe80:0000:0000:0000:0000:0000:0000:0001'',
      Address_line ''eth0'' AF_INET6 ''2001:0db8:0000:0000:0000:0000:0000:0007''] \<and>
   distinct (filter is_address_line (out (main sys_example \<lparr>opts = [], names = []\<rparr>)))"
proof -
  have st: "status (main sys_example \<lparr>opts = [], names = []\<rparr>) = EXIT_SUCCESS" by code_simp
  then have u: "status (main sys_example \<lparr>opts = [], names = []\<rparr>) \<noteq> Undefined" by simp
  have d4: "distinct (ipv4_entries sys_example)" by code_simp
  have w6: "ipv6_well_formed sys_example" by code_simp
  have d6: "distinct (ipv6_entries sys_example)" by code_simp
  have e: "filter is_address_line (out (main sys_example \<lparr>opts = [], names = []\<rparr>)) =
     [Address_line ''lo'' AF_INET ''127.0.0.1'',
      Address_line ''eth0'' AF_INET ''192.168.1.10'',
      Address_line ''lo'' AF_INET6 ''0000:0000:0000:0000:0000:0000:0000:0001'',
      Address_line ''eth0'' AF_INET6 ''fe80:0000:0000:0000:0000:0000:0000:0001'',
      Address_line ''eth0'' AF_INET6 ''2001:0db8:0000:0000:0000:0000:0000:0007'']"
    by code_simp
  from address_lines_not_repeated [OF u d4 w6 d6] st d4 w6 d6 e
  show ?thesis by (intro conjI)
qed

text \<open>The table with the line of \<^verbatim>\<open>eth0\<close> twice is well formed, and holds a record
  twice.\<close>

lemma repeated_table_entries:
  "ipv6_well_formed sys_repeated \<and> \<not> distinct (ipv6_entries sys_repeated)"
  by code_simp

subsection \<open>Positional names that are no interfaces\<close>












subsection \<open>The interface lister on well-formed lines\<close>

text \<open>When the first token of every data line contains a colon, the lister returns one
  name for each data line: that token, cut at its first colon.\<close>

lemma parse_interface_lines_names:
  assumes "\<forall>l\<in>set ls. \<exists>tok. sscanf_ms l = Some tok \<and> colon \<in> set tok"
  shows "parse_interface_lines ls =
    Some (map (\<lambda>l. takeWhile (\<lambda>c. c \<noteq> colon) (the (sscanf_ms l))) ls)"
  using assms by (induction ls) (auto simp: parse_interface_line_def)

lemma get_interfaces_names:
  assumes "getlines listing [] = h1 # h2 # ls"
    and "\<forall>l\<in>set ls. \<exists>tok. sscanf_ms l = Some tok \<and> colon \<in> set tok"
  shows "get_interfaces (Some listing) =
    Ok (map (\<lambda>l. takeWhile (\<lambda>c. c \<noteq> colon) (the (sscanf_ms l))) ls)"
  using assms(1) parse_interface_lines_names [OF assms(2)]
  by (simp add: get_interfaces_def PROC_NET_DEV_HEADER_LINES_def)

subsection \<open>The include options\<close>

text \<open>No part of a run reads \<^verbatim>\<open>include_loopback\<close> or \<^verbatim>\<open>include_link_local\<close>.\<close>

lemma ipv4_loop_include:
  "ipv4_loop (a\<lparr>include_loopback := x, include_link_local := y\<rparr>) reqs = ipv4_loop a reqs"
  by (induction reqs) simp_all

lemma inet6_body_include:
  "inet6_body (a\<lparr>include_loopback := x, include_link_local := y\<rparr>) ip ifc = inet6_body a ip ifc"
  by (simp add: inet6_body_def split: option.split)

lemma inet6_loop_include:
  "inet6_loop (a\<lparr>include_loopback := x, include_link_local := y\<rparr>) ip ifc toks =
   inet6_loop a ip ifc toks"
  by (induction a ip ifc toks rule: inet6_loop.induct)
    (simp_all add: inet6_body_include split: option.split)

lemma checks_part_include:
  "checks_part sys (a\<lparr>include_loopback := x, include_link_local := y\<rparr>) = checks_part sys a"
proof -
  have u: "a\<lparr>include_loopback := x, include_link_local := y, interfaces := ifs,
             num_interfaces := n\<rparr> =
           a\<lparr>interfaces := ifs, num_interfaces := n\<rparr>
            \<lparr>include_loopback := x, include_link_local := y\<rparr>" for ifs n
    by simp
  show ?thesis
    by (simp add: checks_part_def addresses_part_def inet6_part_def u ipv4_loop_include
        inet6_loop_include del: args.update_convs
        split: option.split prod.split)
qed

lemma apply_key_include:
  "apply_key (a\<lparr>include_loopback := x, include_link_local := y\<rparr>) k =
   (apply_key a k)\<lparr>include_loopback := x \<or> k = OPT_INCLUDE_LOOPBACK,
                    include_link_local := y \<or> k = OPT_INCLUDE_LINK_LOCAL\<rparr>"
  by (cases k) (simp_all add: apply_key_def)

lemma key_of_include:
  "OPT_INCLUDE_LOOPBACK = key_of f \<longleftrightarrow> f = Flag_include_loopback"
  "OPT_INCLUDE_LINK_LOCAL = key_of f \<longleftrightarrow> f = Flag_include_link_local"
  by (cases f; simp)+

lemma foldl_apply_key_include:
  "foldl apply_key (a\<lparr>include_loopback := x, include_link_local := y\<rparr>) ks =
   (foldl apply_key a ks)\<lparr>include_loopback := x \<or> OPT_INCLUDE_LOOPBACK \<in> set ks,
                           include_link_local := y \<or> OPT_INCLUDE_LINK_LOCAL \<in> set ks\<rparr>"
proof (induction ks arbitrary: a x y)
  case Nil
  show ?case by simp
next
  case (Cons k ks)
  have "(x \<or> k = OPT_INCLUDE_LOOPBACK \<or> OPT_INCLUDE_LOOPBACK \<in> set ks) =
        (x \<or> OPT_INCLUDE_LOOPBACK = k \<or> OPT_INCLUDE_LOOPBACK \<in> set ks)"
       "(y \<or> k = OPT_INCLUDE_LINK_LOCAL \<or> OPT_INCLUDE_LINK_LOCAL \<in> set ks) =
        (y \<or> OPT_INCLUDE_LINK_LOCAL = k \<or> OPT_INCLUDE_LINK_LOCAL \<in> set ks)"
    by auto
  then show ?case
    by (simp add: apply_key_include Cons.IH del: args.update_convs)
qed

text \<open>Taking the two include options away from a command line changes only the two
  fields.\<close>

lemma foldl_apply_key_without_include:
  "foldl apply_key a (map key_of fs) =
   (foldl apply_key a
      (map key_of (filter (\<lambda>f. f \<noteq> Flag_include_loopback \<and> f \<noteq> Flag_include_link_local) fs)))
     \<lparr>include_loopback := include_loopback a \<or> Flag_include_loopback \<in> set fs,
      include_link_local := include_link_local a \<or> Flag_include_link_local \<in> set fs\<rparr>"
proof (induction fs arbitrary: a)
  case Nil
  show ?case by simp
next
  case (Cons f fs)
  show ?case
  proof (cases "f = Flag_include_loopback \<or> f = Flag_include_link_local")
    case False
    then have "include_loopback (apply_key a (key_of f)) = include_loopback a"
      "include_link_local (apply_key a (key_of f)) = include_link_local a"
      by (cases f; simp add: apply_key_def)+
    moreover from False have "Flag_include_loopback \<noteq> f" "Flag_include_link_local \<noteq> f"
      by auto
    ultimately show ?thesis
      using False by (simp add: Cons.IH [of "apply_key a (key_of f)"])
  next
    case True
    then have "apply_key a (key_of f) =
        a\<lparr>include_loopback := include_loopback a \<or> f = Flag_include_loopback,
          include_link_local := include_link_local a \<or> f = Flag_include_link_local\<rparr>"
      by (auto simp: apply_key_def)
    then have "foldl apply_key a (map key_of (f # fs)) =
        foldl apply_key
          (a\<lparr>include_loopback := include_loopback a \<or> f = Flag_include_loopback,
             include_link_local := include_link_local a \<or> f = Flag_include_link_local\<rparr>)
          (map key_of fs)"
      by simp
    also have "\<dots> = (foldl apply_key a (map key_of fs))
        \<lparr>include_loopback := (include_loopback a \<or> f = Flag_include_loopback) \<or>
            OPT_INCLUDE_LOOPBACK \<in> set (map key_of fs),
         include_link_local := (include_link_local a \<or> f = Flag_include_link_local) \<or>
            OPT_INCLUDE_LINK_LOCAL \<in> set (map key_of fs)\<rparr>"
      by (rule foldl_apply_key_include)
    finally show ?thesis
      using True by (subst (asm) Cons.IH) (auto simp: image_iff key_of_include)
  qed
qed

lemma argp_parse_without_include:
  "argp_parse c =
   (argp_parse (c\<lparr>opts := filter (\<lambda>f. f \<noteq> Flag_include_loopback \<and>
                                      f \<noteq> Flag_include_link_local) (opts c)\<rparr>))
     \<lparr>include_loopback := Flag_include_loopback \<in> set (opts c),
      include_link_local := Flag_include_link_local \<in> set (opts c)\<rparr>"
proof -
  have i: "\<not> include_loopback args0" "\<not> include_link_local args0"
    by (simp_all add: args0_def)
  show ?thesis
    by (simp add: argp_parse_def Let_def apply_key_include
        foldl_apply_key_without_include [of args0 "opts c"] i del: args.update_convs)
qed

lemma argp_exits_without_include:
  "argp_exits (filter (\<lambda>f. f \<noteq> Flag_include_loopback \<and> f \<noteq> Flag_include_link_local) fs) =
   argp_exits fs"
  by (induction fs rule: argp_exits.induct) simp_all

text \<open>The run of a command line is the run of the same command line without
  \<^verbatim>\<open>--include-loopback\<close> and \<^verbatim>\<open>--include-link-local\<close>.\<close>

lemma include_options_ignored:
  "main sys c =
   main sys (c\<lparr>opts := filter (\<lambda>f. f \<noteq> Flag_include_loopback \<and>
                                  f \<noteq> Flag_include_link_local) (opts c)\<rparr>)"
  by (subst main_def, subst argp_parse_without_include)
    (simp add: main_def Let_def checks_part_include argp_exits_without_include
      del: args.update_convs split: result.split option.split)

end
